theory Spec2Isabelle
  imports Complex_Main "HOL-Library.Word" "HOL-Library.Log_Nat"
begin

section \<open>JavaScript strings\<close>

text \<open>
  A JavaScript string is a sequence of 16-bit UTF-16 code units: \<open>.length\<close> counts code
  units, \<open>===\<close> compares them one by one, and \<open>encodeURIComponent\<close> reads surrogate pairs.
  String literals of the source are ASCII and are embedded with \<open>ascii\<close>.
\<close>

type_synonym js_string = "16 word list"

definition ascii :: "string \<Rightarrow> js_string" where
  "ascii s = map (\<lambda>c. of_nat (of_char c)) s"

section \<open>The canvas history (DrawingCanvas.tsx)\<close>

text \<open>
  The component state of \<open>DrawingCanvas\<close> that the history code reads and writes.
  \<open>fabricCanvas\<close> is \<open>None\<close> while the React state is \<open>null\<close>; once the canvas
  exists it is represented by its serialisation \<open>JSON.stringify(canvas.toJSON())\<close>, which is
  what \<open>saveHistory\<close> stores and what \<open>loadFromJSON(JSON.parse(...))\<close> puts back.
  \<open>history\<close> and \<open>historyIndex\<close> are the two \<open>useState\<close> cells, \<open>isHistoryProcessing\<close>
  is the \<open>useRef\<close> flag. Every handler runs on the values of the latest render.
\<close>

record canvas_state =
  fabricCanvas :: "js_string option"
  history :: "js_string list"
  historyIndex :: int
  isHistoryProcessing :: bool

definition unmounted :: canvas_state where
  \<comment> \<open>\<open>useState(null)\<close>, \<open>useState([])\<close>, \<open>useState(-1)\<close>, \<open>useRef(false)\<close>\<close>
  "unmounted = \<lparr>fabricCanvas = None, history = [], historyIndex = -1,
                 isHistoryProcessing = False\<rparr>"

definition initialize :: "js_string \<Rightarrow> canvas_state \<Rightarrow> canvas_state" where
  \<comment> \<open>the mount effect; \<open>initialState\<close> is the serialised blank canvas\<close>
  "initialize initialState s =
     (if fabricCanvas s \<noteq> None then s
      else s\<lparr>fabricCanvas := Some initialState, history := [initialState],
             historyIndex := 0\<rparr>)"

definition slice0 :: "int \<Rightarrow> 'a list \<Rightarrow> 'a list" where
  \<comment> \<open>\<open>xs.slice(0, e)\<close>: a negative end counts from the back\<close>
  "slice0 e xs = (if e < 0 then take (nat (int (length xs) + e)) xs else take (nat e) xs)"

definition index :: "'a list \<Rightarrow> int \<Rightarrow> 'a option" where
  \<comment> \<open>\<open>xs[i]\<close>: \<open>undefined\<close> (here \<open>None\<close>) outside the array\<close>
  "index xs i = (if 0 \<le> i \<and> i < int (length xs) then Some (xs ! nat i) else None)"

definition saveHistory :: "canvas_state \<Rightarrow> canvas_state" where
  "saveHistory s =
     (case fabricCanvas s of
        None \<Rightarrow> s
      | Some json \<Rightarrow>
          if isHistoryProcessing s then s
          else
            let newHistory = slice0 (historyIndex s + 1) (history s);
                newHistory = (if length newHistory \<ge> 10 then tl newHistory else newHistory)
            in s\<lparr>history := newHistory @ [json],
                 historyIndex := min (historyIndex s + 1) 9\<rparr>)"

definition push :: "js_string \<Rightarrow> canvas_state \<Rightarrow> canvas_state" where
  \<comment> \<open>the \<open>path:created\<close> listener: a finished stroke has changed the canvas, whose
      serialisation is now \<open>json\<close>, and \<open>saveHistory\<close> runs\<close>
  "push json s =
     (case fabricCanvas s of
        None \<Rightarrow> s
      | Some _ \<Rightarrow> saveHistory (s\<lparr>fabricCanvas := Some json\<rparr>))"

definition clearCanvas :: "js_string \<Rightarrow> canvas_state \<Rightarrow> canvas_state" where
  \<comment> \<open>\<open>cleared\<close> is the serialisation of the canvas after \<open>clear()\<close> with a white background\<close>
  "clearCanvas cleared s =
     (case fabricCanvas s of
        None \<Rightarrow> s
      | Some _ \<Rightarrow> saveHistory (s\<lparr>fabricCanvas := Some cleared\<rparr>))"

definition restore :: "int \<Rightarrow> canvas_state \<Rightarrow> canvas_state" where
  \<comment> \<open>the common tail of \<open>undo\<close> and \<open>redo\<close>. \<open>JSON.parse(undefined)\<close> throws: the index
      is already set, the canvas is not touched and the flag stays raised.\<close>
  "restore newIndex s =
     (let s1 = s\<lparr>isHistoryProcessing := True, historyIndex := newIndex\<rparr>
      in case index (history s) newIndex of
           None \<Rightarrow> s1
         | Some snapshot \<Rightarrow> s1\<lparr>fabricCanvas := Some snapshot, isHistoryProcessing := False\<rparr>)"

definition undo :: "canvas_state \<Rightarrow> canvas_state" where
  "undo s =
     (if fabricCanvas s = None \<or> historyIndex s \<le> 0 then s
      else restore (historyIndex s - 1) s)"

definition redo :: "canvas_state \<Rightarrow> canvas_state" where
  "redo s =
     (if fabricCanvas s = None \<or> historyIndex s \<ge> int (length (history s)) - 1 then s
      else restore (historyIndex s + 1) s)"

text \<open>A user action on the mounted canvas, and a session of them in order.\<close>

datatype action = Push js_string | Undo | Redo

fun act :: "canvas_state \<Rightarrow> action \<Rightarrow> canvas_state" where
  "act s (Push json) = push json s"
| "act s Undo = undo s"
| "act s Redo = redo s"

definition session :: "js_string \<Rightarrow> action list \<Rightarrow> canvas_state" where
  "session initialState as = foldl act (initialize initialState unmounted) as"

text \<open>
  What holds of the ring between two actions: the canvas exists and shows the entry under
  the cursor, the cursor is inside the list, the list has at most ten entries and no
  restore is pending.
\<close>

definition ring_ok :: "canvas_state \<Rightarrow> bool" where
  "ring_ok s \<longleftrightarrow>
     length (history s) \<le> 10 \<and> 0 \<le> historyIndex s \<and>
     historyIndex s < int (length (history s)) \<and>
     fabricCanvas s = index (history s) (historyIndex s) \<and>
     \<not> isHistoryProcessing s"

section \<open>The prompt input (TextPromptInput)\<close>

text \<open>
  The state of \<open>TextPromptInput\<close>: the two \<open>useState\<close> cells \<open>prompt\<close> and
  \<open>history\<close> (here \<open>promptHistory\<close>, the name \<open>history\<close> being taken by the canvas),
  the pending draft timer \<open>saveTimeout\<close> with the value its callback will write, the last
  value handed to \<open>onPromptChange\<close>, and the two \<open>localStorage\<close> slots
  \<open>prompt_draft\<close> and \<open>prompt_history\<close>.
\<close>

record prompt_state =
  prompt :: js_string
  promptHistory :: "js_string list"
  saveTimeout :: "js_string option"
  onPromptChange :: "js_string option"
  prompt_draft :: "js_string option"
  prompt_history :: "js_string list option"

definition isWhiteSpace :: "16 word \<Rightarrow> bool" where
  \<comment> \<open>the code units \<open>String.prototype.trim\<close> strips: WhiteSpace and LineTerminator\<close>
  "isWhiteSpace c \<longleftrightarrow>
     c \<in> {0x0009, 0x000A, 0x000B, 0x000C, 0x000D, 0x0020, 0x00A0, 0x1680,
          0x2000, 0x2001, 0x2002, 0x2003, 0x2004, 0x2005, 0x2006, 0x2007, 0x2008,
          0x2009, 0x200A, 0x2028, 0x2029, 0x202F, 0x205F, 0x3000, 0xFEFF}"

definition trim :: "js_string \<Rightarrow> js_string" where
  "trim text = rev (dropWhile isWhiteSpace (rev (dropWhile isWhiteSpace text)))"

definition addToHistory :: "js_string \<Rightarrow> prompt_state \<Rightarrow> prompt_state" where
  "addToHistory text s =
     (if trim text = [] then s
      else
        let newHistory = slice0 10 (text # filter (\<lambda>h. h \<noteq> text) (promptHistory s))
        in s\<lparr>promptHistory := newHistory, prompt_history := Some newHistory\<rparr>)"

definition handleChange :: "int \<Rightarrow> js_string \<Rightarrow> prompt_state \<Rightarrow> prompt_state" where
  \<comment> \<open>\<open>maxLength\<close> is the component's prop; a new timer replaces the pending one\<close>
  "handleChange maxLength val s =
     (if int (length val) \<le> maxLength
      then s\<lparr>prompt := val, onPromptChange := Some val, saveTimeout := Some val\<rparr>
      else s)"

definition default_maxLength :: int where
  "default_maxLength = 500"

definition draftTimerFires :: "prompt_state \<Rightarrow> prompt_state" where
  \<comment> \<open>the \<open>setTimeout\<close> callback, two seconds after the last accepted change\<close>
  "draftTimerFires s =
     (case saveTimeout s of
        None \<Rightarrow> s
      | Some val \<Rightarrow> s\<lparr>prompt_draft := Some val, saveTimeout := None\<rparr>)"

definition handleClear :: "prompt_state \<Rightarrow> prompt_state" where
  "handleClear s = s\<lparr>prompt := [], onPromptChange := Some [], prompt_draft := None\<rparr>"

definition applyTemplate :: "js_string \<Rightarrow> prompt_state \<Rightarrow> prompt_state" where
  "applyTemplate templateText s =
     addToHistory templateText (s\<lparr>prompt := templateText, onPromptChange := Some templateText\<rparr>)"

section \<open>Generation parameters (sketch-dream.ts, ControlParameters)\<close>

datatype StylePreset =
  Photorealistic | DigitalArt | OilPainting | Anime | Sketch | Watercolor | Cyberpunk | Fantasy

datatype Variations = One | Two | Four

datatype Resolution = R512x512 | R768x768 | R1024x1024

text \<open>
  \<open>sketchStrength\<close> is a \<open>number\<close> set from a slider with step 1; the optional
  \<open>resolution\<close> is \<open>None\<close> when the property is absent.
\<close>

record GenerationParams =
  sketchStrength :: int
  style :: StylePreset
  variations :: Variations
  resolution :: "Resolution option"

definition DEFAULT_PARAMS :: GenerationParams where
  "DEFAULT_PARAMS = \<lparr>sketchStrength = 70, style = Photorealistic, variations = One,
                      resolution = None\<rparr>"

text \<open>
  \<open>updateParam(key, value)\<close> is typed so that the value belongs to the key's field; a
  call is therefore one of four shapes.
\<close>

datatype param_update =
  SetSketchStrength int
| SetStyle StylePreset
| SetVariations Variations
| SetResolution "Resolution option"

fun updateParam :: "param_update \<Rightarrow> GenerationParams \<Rightarrow> GenerationParams" where
  "updateParam (SetSketchStrength v) prev = prev\<lparr>sketchStrength := v\<rparr>"
| "updateParam (SetStyle v) prev = prev\<lparr>style := v\<rparr>"
| "updateParam (SetVariations v) prev = prev\<lparr>variations := v\<rparr>"
| "updateParam (SetResolution v) prev = prev\<lparr>resolution := v\<rparr>"

definition resetToDefaults :: "GenerationParams \<Rightarrow> GenerationParams" where
  "resetToDefaults prev = DEFAULT_PARAMS"

section \<open>The generation service (generation-service.ts)\<close>

subsection \<open>Property lookup on the suffix table\<close>

text \<open>
  \<open>styleSuffixes\<close> is an ordinary object literal, so \<open>styleSuffixes[style]\<close> finds its
  eight own properties first and then the properties every object inherits from
  \<open>Object.prototype\<close>. The values a lookup can give are a string, the prototype object
  itself (through the \<open>__proto__\<close> accessor), one of the built-in functions, or
  \<open>undefined\<close>.
\<close>

datatype js_value = Undefined | String js_string | ObjectPrototype | BuiltinFunction string

definition styleSuffixes :: "(js_string \<times> js_string) list" where
  "styleSuffixes =
    [(ascii ''photorealistic'',
        ascii '', highly detailed, photorealistic, 8k resolution, cinematic lighting, photography''),
     (ascii ''digital-art'',
        ascii '', digital art, trending on artstation, sharp focus, vibrant colors''),
     (ascii ''oil-painting'',
        ascii '', oil painting texture, classic art style, visible brushstrokes''),
     (ascii ''anime'',
        ascii '', anime style, studio ghibli, vibrant, cel shaded, clean lines''),
     (ascii ''sketch'',
        ascii '', pencil sketch, charcoal drawing, rough lines, artistic''),
     (ascii ''watercolor'',
        ascii '', watercolor painting, soft edges, pastel colors, artistic splatter''),
     (ascii ''cyberpunk'',
        ascii '', cyberpunk, neon lights, futuristic, high tech, dark atmosphere''),
     (ascii ''fantasy'',
        ascii '', high fantasy, magical, ethereal, dreamlike, intricate details'')]"

definition objectPrototype :: "(js_string \<times> js_value) list" where
  \<comment> \<open>the properties of \<open>Object.prototype\<close> in the language standard\<close>
  "objectPrototype =
    [(ascii ''constructor'', BuiltinFunction ''Object''),
     (ascii ''__proto__'', ObjectPrototype),
     (ascii ''hasOwnProperty'', BuiltinFunction ''hasOwnProperty''),
     (ascii ''isPrototypeOf'', BuiltinFunction ''isPrototypeOf''),
     (ascii ''propertyIsEnumerable'', BuiltinFunction ''propertyIsEnumerable''),
     (ascii ''toLocaleString'', BuiltinFunction ''toLocaleString''),
     (ascii ''toString'', BuiltinFunction ''toString''),
     (ascii ''valueOf'', BuiltinFunction ''valueOf''),
     (ascii ''__defineGetter__'', BuiltinFunction ''__defineGetter__''),
     (ascii ''__defineSetter__'', BuiltinFunction ''__defineSetter__''),
     (ascii ''__lookupGetter__'', BuiltinFunction ''__lookupGetter__''),
     (ascii ''__lookupSetter__'', BuiltinFunction ''__lookupSetter__'')]"

definition getProperty :: "(js_string \<times> js_string) list \<Rightarrow> js_string \<Rightarrow> js_value" where
  \<comment> \<open>\<open>obj[key]\<close> on an object literal of string properties\<close>
  "getProperty obj key =
     (case map_of obj key of
        Some v \<Rightarrow> String v
      | None \<Rightarrow> (case map_of objectPrototype key of Some v \<Rightarrow> v | None \<Rightarrow> Undefined))"

fun truthy :: "js_value \<Rightarrow> bool" where
  "truthy Undefined = False"
| "truthy (String s) = (s \<noteq> [])"
| "truthy ObjectPrototype = True"
| "truthy (BuiltinFunction f) = True"

fun toString :: "js_value \<Rightarrow> js_string" where
  \<comment> \<open>the conversion a template literal applies; the text of a built-in function is the
      engine's, here in the form V8 prints\<close>
  "toString Undefined = ascii ''undefined''"
| "toString (String s) = s"
| "toString ObjectPrototype = ascii ''[object Object]''"
| "toString (BuiltinFunction f) = ascii ''function '' @ ascii f @ ascii ''() { [native code] }''"

definition enhancePrompt :: "js_string \<Rightarrow> js_string \<Rightarrow> js_string" where
  "enhancePrompt prompt' style' =
     prompt' @ toString (let v = getProperty styleSuffixes style'
                        in if truthy v then v else String [])"

fun styleName :: "StylePreset \<Rightarrow> js_string" where
  \<comment> \<open>the string each member of the union type \<open>StylePreset\<close> is\<close>
  "styleName Photorealistic = ascii ''photorealistic''"
| "styleName DigitalArt = ascii ''digital-art''"
| "styleName OilPainting = ascii ''oil-painting''"
| "styleName Anime = ascii ''anime''"
| "styleName Sketch = ascii ''sketch''"
| "styleName Watercolor = ascii ''watercolor''"
| "styleName Cyberpunk = ascii ''cyberpunk''"
| "styleName Fantasy = ascii ''fantasy''"

subsection \<open>encodeURIComponent\<close>

datatype js_error = URIError

definition uriUnreserved :: "16 word \<Rightarrow> bool" where
  \<comment> \<open>letters, digits and \<open>- _ . ! ~ * ' ( )\<close>\<close>
  "uriUnreserved c \<longleftrightarrow>
     (0x41 \<le> c \<and> c \<le> 0x5A) \<or> (0x61 \<le> c \<and> c \<le> 0x7A) \<or> (0x30 \<le> c \<and> c \<le> 0x39) \<or>
     c \<in> {0x2D, 0x5F, 0x2E, 0x21, 0x7E, 0x2A, 0x27, 0x28, 0x29}"

definition isLeadSurrogate :: "16 word \<Rightarrow> bool" where
  "isLeadSurrogate c \<longleftrightarrow> 0xD800 \<le> c \<and> c \<le> 0xDBFF"

definition isTrailSurrogate :: "16 word \<Rightarrow> bool" where
  "isTrailSurrogate c \<longleftrightarrow> 0xDC00 \<le> c \<and> c \<le> 0xDFFF"

definition surrogatePair :: "16 word \<Rightarrow> 16 word \<Rightarrow> nat" where
  \<comment> \<open>the code point of a lead and a trail surrogate\<close>
  "surrogatePair lead trail = (unat lead - 0xD800) * 0x400 + (unat trail - 0xDC00) + 0x10000"

definition utf8 :: "nat \<Rightarrow> nat list" where
  "utf8 cp =
     (if cp < 0x80 then [cp]
      else if cp < 0x800 then [0xC0 + cp div 0x40, 0x80 + cp mod 0x40]
      else if cp < 0x10000 then
        [0xE0 + cp div 0x1000, 0x80 + cp div 0x40 mod 0x40, 0x80 + cp mod 0x40]
      else
        [0xF0 + cp div 0x40000, 0x80 + cp div 0x1000 mod 0x40, 0x80 + cp div 0x40 mod 0x40,
         0x80 + cp mod 0x40])"

definition hexDigit :: "nat \<Rightarrow> 16 word" where
  "hexDigit n = (if n < 10 then of_nat (0x30 + n) else of_nat (0x41 + (n - 10)))"

definition percentEscape :: "nat \<Rightarrow> js_string" where
  \<comment> \<open>\<open>%\<close> and the octet in two upper-case hexadecimal digits\<close>
  "percentEscape octet = [0x25, hexDigit (octet div 16), hexDigit (octet mod 16)]"

definition prepend :: "js_string \<Rightarrow> js_error + js_string \<Rightarrow> js_error + js_string" where
  "prepend xs r = (case r of Inl e \<Rightarrow> Inl e | Inr ys \<Rightarrow> Inr (xs @ ys))"

fun encodeURIComponent :: "js_string \<Rightarrow> js_error + js_string" where
  "encodeURIComponent [] = Inr []"
| "encodeURIComponent (c # cs) =
     (if uriUnreserved c then prepend [c] (encodeURIComponent cs)
      else if isTrailSurrogate c then Inl URIError
      else if isLeadSurrogate c then
        (case cs of
           [] \<Rightarrow> Inl URIError
         | d # ds \<Rightarrow>
             if isTrailSurrogate d
             then prepend (concat (map percentEscape (utf8 (surrogatePair c d))))
                    (encodeURIComponent ds)
             else Inl URIError)
      else prepend (concat (map percentEscape (utf8 (unat c)))) (encodeURIComponent cs))"

fun isWellFormed :: "js_string \<Rightarrow> bool" where
  \<comment> \<open>\<open>String.prototype.isWellFormed\<close>: no surrogate without its partner\<close>
  "isWellFormed [] = True"
| "isWellFormed (c # cs) =
     (if isTrailSurrogate c then False
      else if isLeadSurrogate c then
        (case cs of [] \<Rightarrow> False | d # ds \<Rightarrow> isTrailSurrogate d \<and> isWellFormed ds)
      else isWellFormed cs)"

subsection \<open>Numbers to strings\<close>

fun digits :: "nat \<Rightarrow> js_string" where
  "digits n = (if n < 10 then [of_nat (0x30 + n)] else digits (n div 10) @ [of_nat (0x30 + n mod 10)])"

declare digits.simps [simp del]

definition numberToString :: "int \<Rightarrow> js_string" where
  \<comment> \<open>\<open>${n}\<close> for an integer below \<open>10^21\<close> in size: decimal digits, with a sign if negative\<close>
  "numberToString n = (if n < 0 then 0x2D # digits (nat (- n)) else digits (nat n))"

subsection \<open>Binary64 arithmetic\<close>

text \<open>
  A JavaScript number is an IEEE 754 binary64 value, and \<open>a * b\<close> is the exact product
  rounded to the nearest binary64 value, ties to the even significand. The numbers in
  this code are far below the overflow threshold, where the result is the exact value
  rounded to a multiple of the quantum \<open>2 ^ (e - 52)\<close> of its binade \<open>2 ^ e \<le> |x| < 2 ^ (e + 1)\<close>,
  with \<open>e\<close> not below \<open>-1022\<close> (subnormal numbers share the smallest quantum).
\<close>

definition exponent :: "real \<Rightarrow> int" where
  \<comment> \<open>the \<open>e\<close> with \<open>2 ^ e \<le> x < 2 ^ (e + 1)\<close>, for positive \<open>x\<close>\<close>
  "exponent x = (if 1 \<le> x then bitlen \<lfloor>x\<rfloor> - 1 else - bitlen (\<lceil>1 / x\<rceil> - 1))"

definition roundHalfEven :: "real \<Rightarrow> int" where
  "roundHalfEven y =
     (let f = \<lfloor>y\<rfloor>
      in if y - of_int f < 1 / 2 then f
         else if 1 / 2 < y - of_int f then f + 1
         else if even f then f else f + 1)"

definition round64 :: "real \<Rightarrow> real" where
  "round64 x =
     (let a = \<bar>x\<bar>;
          q = 2 powi (max (exponent a) (- 1022) - 52)
      in sgn x * (of_int (roundHalfEven (a / q)) * q))"

definition isBinary64 :: "real \<Rightarrow> bool" where
  \<comment> \<open>the finite values of the number type\<close>
  "isBinary64 x \<longleftrightarrow> \<bar>x\<bar> < 2 ^ 1024 \<and> round64 x = x"

subsection \<open>generateImage\<close>

record response_metadata =
  generationTime :: int
  model :: js_string
  seed :: "int option"

record GenerationResponse =
  success :: bool
  images :: "js_string list"
  error :: "js_string option"
  metadata :: "response_metadata option"
  imageUrl :: "js_string option"

definition imageUrlOf :: "js_string \<Rightarrow> int \<Rightarrow> js_string" where
  \<comment> \<open>the template literal of the request URL, with \<open>width = height = 512\<close>\<close>
  "imageUrlOf encodedPrompt seed' =
     ascii ''https://image.pollinations.ai/prompt/'' @ encodedPrompt @
     ascii ''?width='' @ numberToString 512 @ ascii ''&height='' @ numberToString 512 @
     ascii ''&seed='' @ numberToString seed' @ ascii ''&nologo=true&model=flux''"

text \<open>
  \<open>random\<close> is the binary64 value \<open>Math.random()\<close> returns in this call, a number in
  \<open>[0, 1)\<close>. \<open>Math.random() * 1000000\<close> is the binary64 product, and \<open>Math.floor\<close> of a
  binary64 value is exact. \<open>sketch\<close> is received and discarded. A \<open>URIError\<close> thrown by
  \<open>encodeURIComponent\<close> rejects the promise (\<open>Inl\<close>). The \<open>console.log\<close> call has no
  effect on the result.
\<close>

definition generateImage ::
  "js_string \<Rightarrow> js_string \<Rightarrow> GenerationParams \<Rightarrow> real \<Rightarrow> js_error + GenerationResponse" where
  "generateImage prompt' sketch params random =
     (let seed' = \<lfloor>round64 (random * 1000000)\<rfloor>;
          enhancedPrompt = enhancePrompt prompt' (styleName (style params))
      in case encodeURIComponent enhancedPrompt of
           Inl e \<Rightarrow> Inl e
         | Inr encodedPrompt \<Rightarrow>
             let url = imageUrlOf encodedPrompt seed'
             in Inr \<lparr>success = True, images = [url], error = None,
                     metadata = Some \<lparr>generationTime = 1000,
                                      model = ascii ''pollinations-flux'',
                                      seed = Some seed'\<rparr>,
                     imageUrl = Some url\<rparr>)"

section \<open>Reading a request URL back\<close>

text \<open>
  The functions below are not part of the repository. They take a URL apart the way a
  server receiving the request does, so that the properties of \<open>generateImage\<close> can be
  stated on the path segment and on the query parameters rather than on the text of the
  template.
\<close>

definition hexValue :: "16 word \<Rightarrow> nat option" where
  "hexValue c =
     (if 0x30 \<le> c \<and> c \<le> 0x39 then Some (unat c - 0x30)
      else if 0x41 \<le> c \<and> c \<le> 0x46 then Some (unat c - 0x41 + 10)
      else if 0x61 \<le> c \<and> c \<le> 0x66 then Some (unat c - 0x61 + 10)
      else None)"

definition escapedOctet :: "js_string \<Rightarrow> nat option" where
  \<comment> \<open>the octet of a leading \<open>%XX\<close>\<close>
  "escapedOctet s =
     (case s of
        p # h # l # _ \<Rightarrow>
          if p = 0x25 then
            (case (hexValue h, hexValue l) of
               (Some a, Some b) \<Rightarrow> Some (16 * a + b)
             | _ \<Rightarrow> None)
          else None
      | _ \<Rightarrow> None)"

definition continuation :: "js_string \<Rightarrow> nat option" where
  \<comment> \<open>the six payload bits of a leading \<open>%XX\<close> whose octet is \<open>10xxxxxx\<close>\<close>
  "continuation s =
     (case escapedOctet s of
        Some b \<Rightarrow> if 0x80 \<le> b \<and> b < 0xC0 then Some (b mod 0x40) else None
      | None \<Rightarrow> None)"

definition utf16 :: "nat \<Rightarrow> js_string" where
  "utf16 cp =
     (if cp < 0x10000 then [of_nat cp]
      else [of_nat (0xD800 + (cp - 0x10000) div 0x400),
            of_nat (0xDC00 + (cp - 0x10000) mod 0x400)])"

fun decodeURIComponent :: "js_string \<Rightarrow> js_error + js_string" where
  "decodeURIComponent [] = Inr []"
| "decodeURIComponent (c # cs) =
     (if c \<noteq> 0x25 then prepend [c] (decodeURIComponent cs)
      else
        case escapedOctet (c # cs) of
          None \<Rightarrow> Inl URIError
        | Some b \<Rightarrow>
            if b < 0x80 then prepend [of_nat b] (decodeURIComponent (drop 2 cs))
            else if 0xC2 \<le> b \<and> b < 0xE0 then
              (case continuation (drop 2 cs) of
                 Some x \<Rightarrow>
                   prepend (utf16 (b mod 0x20 * 0x40 + x)) (decodeURIComponent (drop 5 cs))
               | None \<Rightarrow> Inl URIError)
            else if 0xE0 \<le> b \<and> b < 0xF0 then
              (case (continuation (drop 2 cs), continuation (drop 5 cs)) of
                 (Some x, Some y) \<Rightarrow>
                   let cp = b mod 0x10 * 0x1000 + x * 0x40 + y
                   in if cp < 0x800 \<or> (0xD800 \<le> cp \<and> cp < 0xE000) then Inl URIError
                      else prepend (utf16 cp) (decodeURIComponent (drop 8 cs))
               | _ \<Rightarrow> Inl URIError)
            else if 0xF0 \<le> b \<and> b < 0xF8 then
              (case (continuation (drop 2 cs), continuation (drop 5 cs),
                     continuation (drop 8 cs)) of
                 (Some x, Some y, Some z) \<Rightarrow>
                   let cp = b mod 8 * 0x40000 + x * 0x1000 + y * 0x40 + z
                   in if cp < 0x10000 \<or> 0x10FFFF < cp then Inl URIError
                      else prepend (utf16 cp) (decodeURIComponent (drop 11 cs))
               | _ \<Rightarrow> Inl URIError)
            else Inl URIError)"

fun splitOn :: "'a \<Rightarrow> 'a list \<Rightarrow> 'a list list" where
  "splitOn sep [] = [[]]"
| "splitOn sep (x # xs) =
     (if x = sep then [] # splitOn sep xs
      else case splitOn sep xs of
             [] \<Rightarrow> [[x]]
           | piece # pieces \<Rightarrow> (x # piece) # pieces)"

definition urlPathSegment :: "js_string \<Rightarrow> js_string option" where
  \<comment> \<open>what stands between \<open>/prompt/\<close> and the question mark\<close>
  "urlPathSegment url =
     (let base = ascii ''https://image.pollinations.ai/prompt/''
      in if take (length base) url = base
         then Some (takeWhile (\<lambda>c. c \<noteq> 0x3F) (drop (length base) url))
         else None)"

definition urlQuery :: "js_string \<Rightarrow> (js_string \<times> js_string) list" where
  \<comment> \<open>the \<open>key=value\<close> pairs after the question mark, in order\<close>
  "urlQuery url =
     map (\<lambda>kv. (takeWhile (\<lambda>c. c \<noteq> 0x3D) kv, drop 1 (dropWhile (\<lambda>c. c \<noteq> 0x3D) kv)))
       (splitOn 0x26 (drop 1 (dropWhile (\<lambda>c. c \<noteq> 0x3F) url)))"

definition parseSeed :: "js_string \<Rightarrow> int option" where
  \<comment> \<open>a string of decimal digits, as a number\<close>
  "parseSeed s =
     (if s \<noteq> [] \<and> (\<forall>c \<in> set s. 0x30 \<le> c \<and> c \<le> 0x39)
      then Some (foldl (\<lambda>n c. 10 * n + (uint c - 0x30)) 0 s)
      else None)"

text \<open>The characters an encoded component is made of, and the query of a request URL.\<close>

definition uriSafe :: "16 word \<Rightarrow> bool" where
  "uriSafe c \<longleftrightarrow> uriUnreserved c \<or> c = 0x25"

definition queryOf :: "int \<Rightarrow> js_string" where
  "queryOf n =
     ascii ''width=512'' @ 0x26 # ascii ''height=512'' @ 0x26 #
     (ascii ''seed='' @ numberToString n) @ 0x26 # ascii ''nologo=true'' @ 0x26 #
     ascii ''model=flux''"

text \<open>
  The second draws that repeat a seed: of the \<open>2 ^ n\<close> equally spaced values
  \<open>k / 2 ^ n\<close> in \<open>[0, 1)\<close>, those whose seed is \<open>s\<close>.
\<close>

definition repeats :: "nat \<Rightarrow> int \<Rightarrow> nat set" where
  "repeats n s = {k. k < 2 ^ n \<and> \<lfloor>round64 (real k / 2 ^ n * 1000000)\<rfloor> = s}"

section \<open>Properties of the canvas history\<close>

lemma ring_ok_initialize: "ring_ok (initialize initialState unmounted)"
  by (simp add: ring_ok_def initialize_def unmounted_def index_def)

lemma push_eq:
  assumes "ring_ok s"
  shows "push json s =
           s\<lparr>fabricCanvas := Some json,
             history := (if historyIndex s = 9 then tl (history s)
                         else take (nat (historyIndex s + 1)) (history s)) @ [json],
             historyIndex := min (historyIndex s + 1) 9\<rparr>"
proof -
  from assms obtain c where c: "fabricCanvas s = Some c"
    by (auto simp: ring_ok_def index_def split: if_splits)
  from assms have b: "0 \<le> historyIndex s" "historyIndex s < int (length (history s))"
      "length (history s) \<le> 10" "\<not> isHistoryProcessing s"
    by (simp_all add: ring_ok_def)
  have len: "length (take (nat (historyIndex s + 1)) (history s)) = nat (historyIndex s + 1)"
    using b by simp
  show ?thesis
  proof (cases "historyIndex s = 9")
    case True
    with b have "length (history s) = 10" by simp
    then have "take (nat (historyIndex s + 1)) (history s) = history s"
      using True by simp
    with True b c show ?thesis
      by (simp add: push_def saveHistory_def slice0_def Let_def)
  next
    case False
    with b have "nat (historyIndex s + 1) < 10" by simp
    with False b c len show ?thesis
      by (simp add: push_def saveHistory_def slice0_def Let_def)
  qed
qed

lemma ring_ok_push:
  assumes "ring_ok s"
  shows "ring_ok (push json s)"
proof -
  from assms have b: "0 \<le> historyIndex s" "historyIndex s < int (length (history s))"
      "length (history s) \<le> 10" "\<not> isHistoryProcessing s"
    by (simp_all add: ring_ok_def)
  show ?thesis
  proof (cases "historyIndex s = 9")
    case True
    with b have l: "length (history s) = 10" by simp
    then have "(tl (history s) @ [json]) ! 9 = json"
      by (simp add: nth_append)
    with True l b show ?thesis
      by (simp add: push_eq [OF assms] ring_ok_def index_def)
  next
    case False
    with b have n: "nat (historyIndex s + 1) < 10"
      and m: "min (nat (historyIndex s + 1)) (length (history s)) = nat (historyIndex s + 1)"
      by simp_all
    have "(take (nat (historyIndex s + 1)) (history s) @ [json]) ! nat (historyIndex s + 1) = json"
      using m by (simp add: nth_append)
    with False b n m show ?thesis
      by (simp add: push_eq [OF assms] ring_ok_def index_def)
  qed
qed

lemma undo_eq:
  assumes "ring_ok s" "0 < historyIndex s"
  shows "undo s = s\<lparr>historyIndex := historyIndex s - 1,
                     fabricCanvas := Some (history s ! nat (historyIndex s - 1))\<rparr>"
  using assms
  by (auto simp: undo_def restore_def ring_ok_def index_def Let_def split: if_splits)

lemma redo_eq:
  assumes "ring_ok s" "historyIndex s < int (length (history s)) - 1"
  shows "redo s = s\<lparr>historyIndex := historyIndex s + 1,
                     fabricCanvas := Some (history s ! nat (historyIndex s + 1))\<rparr>"
  using assms
  by (auto simp: redo_def restore_def ring_ok_def index_def Let_def split: if_splits)

lemma ring_ok_undo:
  assumes "ring_ok s"
  shows "ring_ok (undo s)"
proof (cases "0 < historyIndex s")
  case True
  with assms show ?thesis
    by (simp add: undo_eq ring_ok_def index_def)
next
  case False
  with assms show ?thesis by (simp add: undo_def)
qed

lemma ring_ok_redo:
  assumes "ring_ok s"
  shows "ring_ok (redo s)"
proof (cases "historyIndex s < int (length (history s)) - 1")
  case True
  with assms show ?thesis
    by (simp add: redo_eq ring_ok_def index_def)
next
  case False
  with assms show ?thesis by (simp add: redo_def)
qed

lemma ring_ok_act: "ring_ok s \<Longrightarrow> ring_ok (act s a)"
  by (cases a) (simp_all add: ring_ok_push ring_ok_undo ring_ok_redo)

lemma ring_ok_foldl: "ring_ok s \<Longrightarrow> ring_ok (foldl act s as)"
  by (induction as arbitrary: s) (simp_all add: ring_ok_act)

lemma ring_ok_session: "ring_ok (session initialState as)"
  unfolding session_def by (rule ring_ok_foldl [OF ring_ok_initialize])

text \<open>
  Claim C1. Whatever sequence of pushes, undos and redos follows the mount, the history
  holds at most ten entries and, when it is not empty, the cursor \<open>historyIndex\<close> is a
  valid position in it; a push made with the cursor on the tenth entry drops the oldest
  entry and appends the new one.
\<close>

theorem history_ring_invariant:
  "length (history (session initialState as)) \<le> 10 \<and>
   (history (session initialState as) \<noteq> [] \<longrightarrow>
      0 \<le> historyIndex (session initialState as) \<and>
      historyIndex (session initialState as) < int (length (history (session initialState as)))) \<and>
   (historyIndex (session initialState as) = 9 \<longrightarrow>
      length (history (session initialState as)) = 10 \<and>
      history (push json (session initialState as)) =
        tl (history (session initialState as)) @ [json])"
proof -
  let ?s = "session initialState as"
  have ok: "ring_ok ?s" by (rule ring_ok_session)
  then have b: "length (history ?s) \<le> 10" "0 \<le> historyIndex ?s"
      "historyIndex ?s < int (length (history ?s))"
    by (simp_all add: ring_ok_def)
  have "historyIndex ?s = 9 \<Longrightarrow> length (history ?s) = 10"
    using b by simp
  moreover have "historyIndex ?s = 9 \<Longrightarrow> history (push json ?s) = tl (history ?s) @ [json]"
    by (simp add: push_eq [OF ok])
  ultimately show ?thesis using b by blast
qed

theorem history_ring_invariant_witness:
  "history (session [0] ([Push [1], Push [2], Push [3], Push [4], Push [5], Push [6], Push [7], Push [8],
      Push [9]])) \<noteq> [] \<and>
   historyIndex (session [0] ([Push [1], Push [2], Push [3], Push [4], Push [5], Push [6], Push [7], Push [8],
      Push [9]])) = 9 \<and>
   history (session [0] ([Push [1], Push [2], Push [3], Push [4], Push [5], Push [6], Push [7], Push [8],
      Push [9]]))
     = [[0], [1], [2], [3], [4], [5], [6], [7], [8], [9]] \<and>
   history (push [10] (session [0] ([Push [1], Push [2], Push [3], Push [4], Push [5], Push [6], Push [7], Push [8],
      Push [9]])))
     = [[1], [2], [3], [4], [5], [6], [7], [8], [9], [10]]"
proof -
  have s: "session [0] ([Push [1], Push [2], Push [3], Push [4], Push [5], Push [6], Push [7], Push [8],
      Push [9]]) =
        \<lparr>fabricCanvas = Some [9],
         history = [[0], [1], [2], [3], [4], [5], [6], [7], [8], [9]],
         historyIndex = 9, isHistoryProcessing = False\<rparr>"
    by (simp add: session_def initialize_def unmounted_def push_def saveHistory_def
        slice0_def)
  show ?thesis
    using history_ring_invariant [of "[0]" "[Push [1], Push [2], Push [3], Push [4], Push [5], Push [6], Push [7], Push [8],
      Push [9]]" "[10]"]
    by (simp add: s)
qed

text \<open>
  Claim C2. A push keeps the entries up to the cursor, drops the oldest of them when ten
  are kept, appends the new snapshot and leaves the cursor on the last entry, at most 9.
  From the entries a, b, c with the cursor on c, an undo followed by a push of d gives
  a, b, d with the cursor on d.
\<close>

theorem push_truncates_and_caps:
  assumes "ring_ok s"
  shows "history (push json s) =
           (let kept = take (nat (historyIndex s + 1)) (history s)
            in (if length kept \<ge> 10 then tl kept else kept) @ [json]) \<and>
         length (history (push json s)) \<le> 10 \<and>
         historyIndex (push json s) = int (length (history (push json s))) - 1 \<and>
         historyIndex (push json s) = min (historyIndex s + 1) 9 \<and>
         (history s = [a, b, c] \<and> historyIndex s = 2 \<longrightarrow>
            historyIndex (undo s) = 1 \<and>
            history (push d (undo s)) = [a, b, d] \<and> historyIndex (push d (undo s)) = 2)"
proof -
  from assms have b: "0 \<le> historyIndex s" "historyIndex s < int (length (history s))"
      "length (history s) \<le> 10"
    by (simp_all add: ring_ok_def)
  have len: "length (take (nat (historyIndex s + 1)) (history s)) = nat (historyIndex s + 1)"
    using b by simp
  have full: "historyIndex s = 9 \<Longrightarrow> take (nat (historyIndex s + 1)) (history s) = history s"
    using b by simp
  have h: "history (push json s) =
           (let kept = take (nat (historyIndex s + 1)) (history s)
            in (if length kept \<ge> 10 then tl kept else kept) @ [json])"
    using b full by (cases "historyIndex s = 9") (simp_all add: push_eq [OF assms] Let_def)
  from ring_ok_push [OF assms, of json]
  have l: "length (history (push json s)) \<le> 10" by (simp add: ring_ok_def)
  have i: "historyIndex (push json s) = min (historyIndex s + 1) 9"
    by (simp add: push_eq [OF assms])
  have j: "historyIndex (push json s) = int (length (history (push json s))) - 1"
    using b len by (cases "historyIndex s = 9") (simp_all add: push_eq [OF assms])
  have e: "historyIndex (undo s) = 1 \<and>
           history (push d (undo s)) = [a, b, d] \<and> historyIndex (push d (undo s)) = 2"
    if "history s = [a, b, c]" "historyIndex s = 2"
  proof -
    have u: "undo s = s\<lparr>historyIndex := 1, fabricCanvas := Some b\<rparr>"
      using that by (simp add: undo_eq [OF assms])
    have "ring_ok (undo s)" by (rule ring_ok_undo [OF assms])
    from push_eq [OF this, of d] show ?thesis
      using that by (simp add: u)
  qed
  from h l i j e show ?thesis by blast
qed

theorem push_truncates_and_caps_witness:
  "ring_ok \<lparr>fabricCanvas = Some [3], history = [[1], [2], [3]], historyIndex = 2,
            isHistoryProcessing = False\<rparr> \<and>
   history (push [4] (undo \<lparr>fabricCanvas = Some [3], history = [[1], [2], [3]],
                            historyIndex = 2, isHistoryProcessing = False\<rparr>))
     = [[1], [2], [4]] \<and>
   historyIndex (push [4] (undo \<lparr>fabricCanvas = Some [3], history = [[1], [2], [3]],
                                 historyIndex = 2, isHistoryProcessing = False\<rparr>)) = 2"
proof -
  have ok: "ring_ok \<lparr>fabricCanvas = Some [3], history = [[1], [2], [3]], historyIndex = 2,
                     isHistoryProcessing = False\<rparr>"
    by (simp add: ring_ok_def index_def)
  show ?thesis
    using ok push_truncates_and_caps [OF ok, of "[4]" "[1]" "[2]" "[3]" "[4]"]
    by simp
qed

text \<open>
  Claim C3. With the cursor past the first entry, an undo followed at once by a redo
  gives back the canvas contents and the cursor from before the undo. An undo moves the
  cursor down by one and shows the entry there; a redo moves it up by one. An undo with
  the cursor on the first entry and a redo with the cursor on the last entry change
  nothing.
\<close>

theorem undo_redo_identity:
  assumes "ring_ok s"
  shows "(0 < historyIndex s \<longrightarrow>
            historyIndex (undo s) = historyIndex s - 1 \<and>
            fabricCanvas (undo s) = index (history s) (historyIndex s - 1) \<and>
            fabricCanvas (redo (undo s)) = fabricCanvas s \<and>
            historyIndex (redo (undo s)) = historyIndex s \<and>
            redo (undo s) = s) \<and>
         (historyIndex s < int (length (history s)) - 1 \<longrightarrow>
            historyIndex (redo s) = historyIndex s + 1 \<and>
            fabricCanvas (redo s) = index (history s) (historyIndex s + 1)) \<and>
         (historyIndex s = 0 \<longrightarrow> undo s = s) \<and>
         (historyIndex s = int (length (history s)) - 1 \<longrightarrow> redo s = s)"
proof -
  from assms have b: "0 \<le> historyIndex s" "historyIndex s < int (length (history s))"
      "fabricCanvas s = Some (history s ! nat (historyIndex s))"
    by (simp_all add: ring_ok_def index_def)
  have again: "redo (undo s) = s" if pos: "0 < historyIndex s"
  proof -
    have u: "undo s = s\<lparr>historyIndex := historyIndex s - 1,
                         fabricCanvas := Some (history s ! nat (historyIndex s - 1))\<rparr>"
      by (rule undo_eq [OF assms pos])
    have "ring_ok (undo s)" by (rule ring_ok_undo [OF assms])
    moreover have "historyIndex (undo s) < int (length (history (undo s))) - 1"
      using b by (simp add: u)
    ultimately have "redo (undo s) =
        (undo s)\<lparr>historyIndex := historyIndex (undo s) + 1,
                 fabricCanvas := Some (history (undo s) ! nat (historyIndex (undo s) + 1))\<rparr>"
      by (rule redo_eq)
    then show ?thesis using b by (simp add: u)
  qed
  have down: "historyIndex (undo s) = historyIndex s - 1 \<and>
              fabricCanvas (undo s) = index (history s) (historyIndex s - 1)"
    if "0 < historyIndex s"
    using that b by (simp add: undo_eq [OF assms that] index_def)
  have up: "historyIndex (redo s) = historyIndex s + 1 \<and>
            fabricCanvas (redo s) = index (history s) (historyIndex s + 1)"
    if "historyIndex s < int (length (history s)) - 1"
    using that b by (simp add: redo_eq [OF assms that] index_def)
  have first: "historyIndex s = 0 \<Longrightarrow> undo s = s" by (simp add: undo_def)
  have last: "historyIndex s = int (length (history s)) - 1 \<Longrightarrow> redo s = s"
    by (simp add: redo_def)
  from again down up first last show ?thesis by simp
qed

theorem undo_redo_identity_witness:
  "ring_ok \<lparr>fabricCanvas = Some [3], history = [[1], [2], [3]], historyIndex = 2,
            isHistoryProcessing = False\<rparr> \<and>
   undo \<lparr>fabricCanvas = Some [3], history = [[1], [2], [3]], historyIndex = 2,
         isHistoryProcessing = False\<rparr>
     = \<lparr>fabricCanvas = Some [2], history = [[1], [2], [3]], historyIndex = 1,
        isHistoryProcessing = False\<rparr> \<and>
   redo (undo \<lparr>fabricCanvas = Some [3], history = [[1], [2], [3]], historyIndex = 2,
               isHistoryProcessing = False\<rparr>)
     = \<lparr>fabricCanvas = Some [3], history = [[1], [2], [3]], historyIndex = 2,
        isHistoryProcessing = False\<rparr>"
proof -
  have ok: "ring_ok \<lparr>fabricCanvas = Some [3], history = [[1], [2], [3]], historyIndex = 2,
                     isHistoryProcessing = False\<rparr>"
    by (simp add: ring_ok_def index_def)
  have u: "undo \<lparr>fabricCanvas = Some [3], history = [[1], [2], [3]], historyIndex = 2,
                 isHistoryProcessing = False\<rparr>
     = \<lparr>fabricCanvas = Some [2], history = [[1], [2], [3]], historyIndex = 1,
        isHistoryProcessing = False\<rparr>"
    by (simp add: undo_def restore_def index_def)
  show ?thesis
    using ok u undo_redo_identity [OF ok] by (simp add: index_def)
qed

section \<open>Properties of the prompt input\<close>

lemma trim_empty_iff: "trim text = [] \<longleftrightarrow> (\<forall>c \<in> set text. isWhiteSpace c)"
proof
  assume "trim text = []"
  then have "dropWhile isWhiteSpace (rev (dropWhile isWhiteSpace text)) = []"
    by (simp add: trim_def)
  then have "\<forall>c \<in> set (dropWhile isWhiteSpace text). isWhiteSpace c"
    by (simp add: dropWhile_eq_Nil_conv)
  moreover have "\<forall>c \<in> set (takeWhile isWhiteSpace text). isWhiteSpace c"
    by (auto dest: set_takeWhileD)
  moreover have "set text = set (takeWhile isWhiteSpace text) \<union> set (dropWhile isWhiteSpace text)"
    by (metis set_append takeWhile_dropWhile_id)
  ultimately show "\<forall>c \<in> set text. isWhiteSpace c" by blast
next
  assume "\<forall>c \<in> set text. isWhiteSpace c"
  then show "trim text = []" by (auto simp: trim_def dest: set_dropWhileD)
qed

lemma filter_take_neq:
  "filter (\<lambda>h. h \<noteq> x) (take n (filter (\<lambda>h. h \<noteq> x) hs)) = take n (filter (\<lambda>h. h \<noteq> x) hs)"
  by (rule filter_True) (auto dest: in_set_takeD)

lemma count_list_filter_neq: "count_list (filter (\<lambda>h. h \<noteq> x) hs) x = 0"
  by (induction hs) simp_all

lemma count_list_take_filter_neq: "count_list (take n (filter (\<lambda>h. h \<noteq> x) hs)) x = 0"
proof -
  have "x \<notin> set (take n (filter (\<lambda>h. h \<noteq> x) hs))"
    by (auto dest: in_set_takeD)
  then show ?thesis by (simp add: count_list_0_iff)
qed

lemma addToHistory_history:
  assumes "trim text \<noteq> []"
  shows "promptHistory (addToHistory text s) =
           text # take 9 (filter (\<lambda>h. h \<noteq> text) (promptHistory s))"
proof -
  have "take 10 (text # filter (\<lambda>h. h \<noteq> text) (promptHistory s)) =
        text # take 9 (filter (\<lambda>h. h \<noteq> text) (promptHistory s))"
    by (simp add: take_Cons')
  with assms show ?thesis by (simp add: addToHistory_def slice0_def Let_def)
qed

text \<open>
  Claim C6. A change whose text is longer than \<open>maxLength\<close> leaves the whole state as it
  was: the prompt keeps its value and no draft save is scheduled. A text of at most
  \<open>maxLength\<close> code units becomes the prompt, is reported to the parent and is the value
  of the one pending draft save. With the default of 500 a text of 501 characters or
  more is refused.
\<close>

theorem handleChange_length_gate:
  "(int (length val) > maxLength \<longrightarrow> handleChange maxLength val s = s) \<and>
   (int (length val) \<le> maxLength \<longrightarrow>
      prompt (handleChange maxLength val s) = val \<and>
      onPromptChange (handleChange maxLength val s) = Some val \<and>
      saveTimeout (handleChange maxLength val s) = Some val \<and>
      promptHistory (handleChange maxLength val s) = promptHistory s \<and>
      prompt_draft (handleChange maxLength val s) = prompt_draft s \<and>
      prompt_draft (draftTimerFires (handleChange maxLength val s)) = Some val) \<and>
   (length val \<ge> 501 \<longrightarrow> handleChange default_maxLength val s = s)"
  by (simp add: handleChange_def default_maxLength_def draftTimerFires_def)

theorem handleChange_length_gate_witness:
  "int (length (replicate 501 (97 :: 16 word))) > 500 \<and>
   length (replicate 501 (97 :: 16 word)) \<ge> 501 \<and>
   handleChange default_maxLength (replicate 501 97)
     \<lparr>prompt = [98], promptHistory = [], saveTimeout = None, onPromptChange = None,
      prompt_draft = None, prompt_history = None\<rparr>
   = \<lparr>prompt = [98], promptHistory = [], saveTimeout = None, onPromptChange = None,
      prompt_draft = None, prompt_history = None\<rparr> \<and>
   int (length (replicate 500 (97 :: 16 word))) \<le> 500 \<and>
   prompt (handleChange 500 (replicate 500 97)
     \<lparr>prompt = [98], promptHistory = [], saveTimeout = None, onPromptChange = None,
      prompt_draft = None, prompt_history = None\<rparr>) = replicate 500 97"
  using handleChange_length_gate [where maxLength = 500 and val = "replicate 501 97" and s =
      "\<lparr>prompt = [98], promptHistory = [], saveTimeout = None, onPromptChange = None,
        prompt_draft = None, prompt_history = None\<rparr>"]
    handleChange_length_gate [where maxLength = 500 and val = "replicate 500 97" and s =
      "\<lparr>prompt = [98], promptHistory = [], saveTimeout = None, onPromptChange = None,
        prompt_draft = None, prompt_history = None\<rparr>"]
  by simp

text \<open>
  Claim C7. Committing a text made only of white space (or the empty text) changes
  nothing. Any other text goes to the front of the recency list, every earlier
  occurrence of the same text is removed and the list is cut to ten entries. Committing
  the same text twice in a row gives the same state as committing it once: the list
  starts with the text and holds it exactly once.
\<close>

theorem addToHistory_recency:
  "((\<forall>c \<in> set text. isWhiteSpace c) \<longrightarrow> addToHistory text s = s) \<and>
   (\<not> (\<forall>c \<in> set text. isWhiteSpace c) \<longrightarrow>
      promptHistory (addToHistory text s) =
        take 10 (text # filter (\<lambda>h. h \<noteq> text) (promptHistory s)) \<and>
      prompt_history (addToHistory text s) = Some (promptHistory (addToHistory text s)) \<and>
      length (promptHistory (addToHistory text s)) \<le> 10 \<and>
      addToHistory text (addToHistory text s) = addToHistory text s \<and>
      hd (promptHistory (addToHistory text (addToHistory text s))) = text \<and>
      count_list (promptHistory (addToHistory text (addToHistory text s))) text = 1)"
proof (cases "\<forall>c \<in> set text. isWhiteSpace c")
  case True
  then have "trim text = []" by (simp add: trim_empty_iff)
  then have "addToHistory text s = s" by (simp add: addToHistory_def)
  with True show ?thesis by simp
next
  case False
  then have nb: "trim text \<noteq> []" by (simp add: trim_empty_iff)
  let ?once = "addToHistory text s"
  have h1: "promptHistory ?once = text # take 9 (filter (\<lambda>h. h \<noteq> text) (promptHistory s))"
    by (rule addToHistory_history [OF nb])
  have t: "promptHistory ?once = take 10 (text # filter (\<lambda>h. h \<noteq> text) (promptHistory s))"
    by (simp add: h1 take_Cons')
  have st: "prompt_history ?once = Some (promptHistory ?once)"
    using nb by (simp add: addToHistory_def Let_def)
  have l: "length (promptHistory ?once) \<le> 10" by (simp add: h1)
  have h2: "promptHistory (addToHistory text ?once) = promptHistory ?once"
    by (simp add: addToHistory_history [OF nb] h1 filter_take_neq)
  have idem: "addToHistory text ?once = ?once"
  proof -
    have "slice0 10 (text # filter (\<lambda>h. h \<noteq> text) (promptHistory ?once)) = promptHistory ?once"
      using h2 nb by (simp add: addToHistory_def Let_def)
    then show ?thesis using nb st by (simp add: addToHistory_def Let_def)
  qed
  have hd1: "hd (promptHistory (addToHistory text ?once)) = text"
    by (simp add: idem h1)
  have c1: "count_list (promptHistory (addToHistory text ?once)) text = 1"
    by (simp add: idem h1 count_list_take_filter_neq)
  from False t st l idem hd1 c1 show ?thesis by blast
qed

theorem addToHistory_recency_witness:
  "isWhiteSpace 0x20 \<and> isWhiteSpace 0x09 \<and>
   addToHistory [0x20, 0x09]
     \<lparr>prompt = [], promptHistory = [[120], [121]], saveTimeout = None,
      onPromptChange = None, prompt_draft = None, prompt_history = None\<rparr>
   = \<lparr>prompt = [], promptHistory = [[120], [121]], saveTimeout = None,
      onPromptChange = None, prompt_draft = None, prompt_history = None\<rparr> \<and>
   \<not> isWhiteSpace 120 \<and>
   promptHistory (addToHistory [120] (addToHistory [120]
     \<lparr>prompt = [], promptHistory = [[121], [120], [122]], saveTimeout = None,
      onPromptChange = None, prompt_draft = None, prompt_history = None\<rparr>))
   = [[120], [121], [122]]"
proof -
  have w: "isWhiteSpace 0x20" "isWhiteSpace 0x09"
    by (simp_all add: isWhiteSpace_def)
  have n: "\<not> isWhiteSpace 120"
    by (simp add: isWhiteSpace_def)
  have e: "promptHistory (addToHistory [120]
     \<lparr>prompt = [], promptHistory = [[121], [120], [122]], saveTimeout = None,
      onPromptChange = None, prompt_draft = None, prompt_history = None\<rparr>)
     = [[120], [121], [122]]"
    using n
      addToHistory_recency [of "[120]"
        "\<lparr>prompt = [], promptHistory = [[121], [120], [122]], saveTimeout = None,
          onPromptChange = None, prompt_draft = None, prompt_history = None\<rparr>"]
    by simp
  show ?thesis
    using w n e
      addToHistory_recency [of "[0x20, 0x09]"
        "\<lparr>prompt = [], promptHistory = [[120], [121]], saveTimeout = None,
          onPromptChange = None, prompt_draft = None, prompt_history = None\<rparr>"]
      addToHistory_recency [of "[120]"
        "\<lparr>prompt = [], promptHistory = [[121], [120], [122]], saveTimeout = None,
          onPromptChange = None, prompt_draft = None, prompt_history = None\<rparr>"]
    by simp
qed

section \<open>Properties of the parameter panel\<close>

text \<open>
  Claim C8. An update of one field of the generation parameters gives that field the new
  value and leaves the three others as they were, whatever the parameters before; a
  reset gives sketchStrength 70, style photorealistic, variations 1 and no resolution.
\<close>

theorem updateParam_frame_and_reset:
  "sketchStrength (updateParam (SetSketchStrength n) prev) = n \<and>
   style (updateParam (SetSketchStrength n) prev) = style prev \<and>
   variations (updateParam (SetSketchStrength n) prev) = variations prev \<and>
   resolution (updateParam (SetSketchStrength n) prev) = resolution prev \<and>
   style (updateParam (SetStyle st) prev) = st \<and>
   sketchStrength (updateParam (SetStyle st) prev) = sketchStrength prev \<and>
   variations (updateParam (SetStyle st) prev) = variations prev \<and>
   resolution (updateParam (SetStyle st) prev) = resolution prev \<and>
   variations (updateParam (SetVariations v) prev) = v \<and>
   sketchStrength (updateParam (SetVariations v) prev) = sketchStrength prev \<and>
   style (updateParam (SetVariations v) prev) = style prev \<and>
   resolution (updateParam (SetVariations v) prev) = resolution prev \<and>
   resolution (updateParam (SetResolution r) prev) = r \<and>
   sketchStrength (updateParam (SetResolution r) prev) = sketchStrength prev \<and>
   style (updateParam (SetResolution r) prev) = style prev \<and>
   variations (updateParam (SetResolution r) prev) = variations prev \<and>
   resetToDefaults prev =
     \<lparr>sketchStrength = 70, style = Photorealistic, variations = One, resolution = None\<rparr>"
  by (simp add: resetToDefaults_def DEFAULT_PARAMS_def)

section \<open>Properties of the generation service\<close>

lemma ascii_Nil: "ascii [] = []"
  by (simp add: ascii_def)

lemma ascii_Cons: "ascii (c # s) = of_nat (of_char c) # ascii s"
  by (simp add: ascii_def)

lemma ascii_lt_256: "c \<in> set (ascii s) \<Longrightarrow> c < 0x100"
proof -
  assume "c \<in> set (ascii s)"
  then obtain a where c: "c = of_nat (of_char a)" by (auto simp: ascii_def)
  have "(of_char a :: nat) < 256"
    by (metis of_char_mod_256 mod_less_divisor zero_less_numeral)
  moreover have "unat (of_nat (of_char a) :: 16 word) \<le> of_char a"
    by (simp add: unat_of_nat)
  ultimately have "unat (of_nat (of_char a) :: 16 word) < 256"
    by (rule le_less_trans [rotated])
  then show ?thesis unfolding c by (simp add: word_less_nat_alt)
qed

lemma uriUnreserved_not_surrogate:
  "uriUnreserved c \<Longrightarrow> \<not> isLeadSurrogate c \<and> \<not> isTrailSurrogate c"
  by (auto simp: uriUnreserved_def isLeadSurrogate_def isTrailSurrogate_def word_le_nat_alt)

lemma encodeURIComponent_wellFormed:
  "isWellFormed s \<Longrightarrow> \<exists>r. encodeURIComponent s = Inr r"
proof (induction s rule: encodeURIComponent.induct)
  case 1
  then show ?case by simp
next
  case (2 c cs)
  then show ?case
    by (cases cs) (auto simp: prepend_def uriUnreserved_not_surrogate split: if_splits)
qed

lemma encodeURIComponent_illFormed:
  "\<not> isWellFormed s \<Longrightarrow> encodeURIComponent s = Inl URIError"
proof (induction s rule: encodeURIComponent.induct)
  case 1
  then show ?case by simp
next
  case (2 c cs)
  then show ?case
    by (cases cs) (auto simp: prepend_def uriUnreserved_not_surrogate split: if_splits)
qed

lemma isWellFormed_append:
  "isWellFormed xs \<Longrightarrow> isWellFormed (xs @ ys) = isWellFormed ys"
proof (induction xs rule: isWellFormed.induct)
  case 1
  then show ?case by simp
next
  case (2 c cs)
  then show ?case by (cases cs) (auto split: if_splits)
qed

lemma isWellFormed_no_surrogates:
  "\<forall>c \<in> set s. c < 0xD800 \<Longrightarrow> isWellFormed s"
proof (induction s)
  case Nil
  then show ?case by simp
next
  case (Cons c cs)
  then have "c < 0xD800" by simp
  then have "\<not> isLeadSurrogate c" "\<not> isTrailSurrogate c"
    by (auto simp: isLeadSurrogate_def isTrailSurrogate_def word_le_nat_alt word_less_nat_alt)
  with Cons show ?case by simp
qed

lemma isWellFormed_ascii: "isWellFormed (ascii s)"
proof (rule isWellFormed_no_surrogates, rule ballI)
  fix c assume "c \<in> set (ascii s)"
  then have "c < 0x100" by (rule ascii_lt_256)
  then show "c < 0xD800" by (simp add: word_less_nat_alt)
qed

lemma below_16: "n < 16 \<Longrightarrow> n \<in> {0, 1, 2, 3, 4, 5, 6, 7, 8, 9, 10, 11, 12, 13, 14, 15 :: nat}"
  by simp arith

lemma hexDigit_unreserved: "n < 16 \<Longrightarrow> uriUnreserved (hexDigit n)"
  by (drule below_16) (auto simp: hexDigit_def uriUnreserved_def)

lemma utf8_octets: "cp < 0x110000 \<Longrightarrow> b \<in> set (utf8 cp) \<Longrightarrow> b < 256"
  by (auto simp: utf8_def split: if_splits)

lemma surrogatePair_bound:
  "isLeadSurrogate c \<Longrightarrow> isTrailSurrogate d \<Longrightarrow> surrogatePair c d < 0x110000"
  by (auto simp: isLeadSurrogate_def isTrailSurrogate_def surrogatePair_def word_le_nat_alt)

lemma unat_code_unit: "unat (c :: 16 word) < 0x110000"
proof -
  have "unat c < 2 ^ 16" using unsigned_less [of c] by simp
  then show ?thesis by simp
qed

lemma percentEscape_safe:
  assumes "b < 256" shows "\<forall>c \<in> set (percentEscape b). uriSafe c"
proof -
  from assms have "b div 16 < 16" "b mod 16 < 16" by simp_all
  then have "uriUnreserved (hexDigit (b div 16))" "uriUnreserved (hexDigit (b mod 16))"
    by (simp_all only: hexDigit_unreserved)
  then show ?thesis by (simp add: percentEscape_def uriSafe_def)
qed

lemma escaped_safe:
  assumes "cp < 0x110000"
  shows "\<forall>c \<in> set (concat (map percentEscape (utf8 cp))). uriSafe c"
  using utf8_octets [OF assms] percentEscape_safe by auto

lemma prepend_Inr: "prepend xs r = Inr ys \<longleftrightarrow> (\<exists>zs. r = Inr zs \<and> ys = xs @ zs)"
  by (cases r) (auto simp: prepend_def)

lemma encodeURIComponent_safe:
  "encodeURIComponent s = Inr r \<Longrightarrow> \<forall>c \<in> set r. uriSafe c"
proof (induction s arbitrary: r rule: encodeURIComponent.induct)
  case 1
  then show ?case by simp
next
  case (2 x xs)
  show ?case
  proof (cases "uriUnreserved x")
    case True
    with "2.prems" obtain zs where zs: "encodeURIComponent xs = Inr zs" "r = [x] @ zs"
      by (auto simp: prepend_Inr)
    from "2.IH"(1) [OF True zs(1)] True zs(2) show ?thesis
      by (simp add: uriSafe_def)
  next
    case nu: False
    with "2.prems" have nt: "\<not> isTrailSurrogate x" by (auto split: if_splits)
    show ?thesis
    proof (cases "isLeadSurrogate x")
      case True
      with "2.prems" nu nt obtain d ds where xs: "xs = d # ds"
        by (cases xs) auto
      with "2.prems" nu nt True have td: "isTrailSurrogate d"
        by (auto split: if_splits)
      with "2.prems" nu nt True xs obtain zs where
        zs: "encodeURIComponent ds = Inr zs"
            "r = concat (map percentEscape (utf8 (surrogatePair x d))) @ zs"
        by (auto simp: prepend_Inr)
      from "2.IH"(2) [OF nu nt True xs td zs(1)]
        escaped_safe [OF surrogatePair_bound [OF True td]] zs(2)
      show ?thesis by auto
    next
      case False
      with "2.prems" nu nt obtain zs where
        zs: "encodeURIComponent xs = Inr zs"
            "r = concat (map percentEscape (utf8 (unat x))) @ zs"
        by (auto simp: prepend_Inr)
      from "2.IH"(3) [OF nu nt False zs(1)] escaped_safe [OF unat_code_unit [of x]] zs(2)
      show ?thesis by auto
    qed
  qed
qed

lemma encodeURIComponent_no_question:
  "encodeURIComponent s = Inr r \<Longrightarrow> 0x3F \<notin> set r"
  by (auto dest!: encodeURIComponent_safe simp: uriSafe_def uriUnreserved_def)

lemma below_10: "k < 10 \<Longrightarrow> k \<in> {0, 1, 2, 3, 4, 5, 6, 7, 8, 9 :: nat}"
  by simp arith

lemma digit_range:
  "k < 10 \<Longrightarrow> 0x30 \<le> (of_nat (0x30 + k) :: 16 word) \<and> (of_nat (0x30 + k) :: 16 word) \<le> 0x39"
  by (drule below_10) auto

lemma digit_uint: "k < 10 \<Longrightarrow> uint (of_nat (0x30 + k) :: 16 word) - 0x30 = int k"
  by (drule below_10) auto

lemma digits_chars: "c \<in> set (digits n) \<Longrightarrow> 0x30 \<le> c \<and> c \<le> 0x39"
proof (induction n rule: digits.induct)
  case (1 n)
  show ?case
  proof (cases "n < 10")
    case True
    with 1 digit_range [of n] show ?thesis by (simp add: digits.simps [of n])
  next
    case False
    have "n mod 10 < 10" by simp
    from False 1 digit_range [OF this] show ?thesis
      by (auto simp: digits.simps [of n])
  qed
qed

lemma digits_nonempty: "digits n \<noteq> []"
  by (simp add: digits.simps [of n])

lemma numberToString_chars:
  "c \<in> set (numberToString n) \<Longrightarrow> c = 0x2D \<or> (0x30 \<le> c \<and> c \<le> 0x39)"
  by (auto simp: numberToString_def dest: digits_chars split: if_splits)

lemma numberToString_no_separator:
  "0x26 \<notin> set (numberToString n)" "0x3D \<notin> set (numberToString n)"
  "0x3F \<notin> set (numberToString n)"
  by (auto dest: numberToString_chars)

lemma foldl_digits:
  "foldl (\<lambda>n c. 10 * n + (uint c - 0x30)) 0 (digits n) = int n"
proof (induction n rule: digits.induct)
  case (1 n)
  show ?case
  proof (cases "n < 10")
    case True
    with digit_uint [OF True] show ?thesis by (simp add: digits.simps [of n])
  next
    case False
    have "n mod 10 < 10" by simp
    from False 1 digit_uint [OF this] show ?thesis
      by (simp add: digits.simps [of n] zmod_int zdiv_int)
  qed
qed

lemma parseSeed_numberToString: "0 \<le> n \<Longrightarrow> parseSeed (numberToString n) = Some n"
  using digits_chars [of _ "nat n"]
  by (auto simp: parseSeed_def numberToString_def digits_nonempty foldl_digits)

lemma takeWhile_until:
  "c \<notin> set xs \<Longrightarrow> takeWhile (\<lambda>x. x \<noteq> c) (xs @ c # ys) = xs"
  by (induction xs) auto

lemma dropWhile_until:
  "c \<notin> set xs \<Longrightarrow> dropWhile (\<lambda>x. x \<noteq> c) (xs @ c # ys) = c # ys"
  by (induction xs) auto

lemma splitOn_piece:
  "sep \<notin> set xs \<Longrightarrow> splitOn sep (xs @ sep # ys) = xs # splitOn sep ys"
  by (induction xs) auto

lemma splitOn_last: "sep \<notin> set xs \<Longrightarrow> splitOn sep xs = [xs]"
  by (induction xs) auto

lemma numberToString_512: "numberToString 512 = ascii ''512''"
  by (simp add: numberToString_def digits.simps ascii_Cons ascii_Nil)

lemma imageUrlOf_shape:
  "imageUrlOf enc n =
     ascii ''https://image.pollinations.ai/prompt/'' @ enc @ 0x3F # queryOf n"
  by (simp add: imageUrlOf_def queryOf_def numberToString_512 ascii_Cons ascii_Nil)

lemma base_no_question: "0x3F \<notin> set (ascii ''https://image.pollinations.ai/prompt/'')"
  by (simp add: ascii_Cons ascii_Nil)

lemma urlPathSegment_imageUrlOf:
  assumes "0x3F \<notin> set enc"
  shows "urlPathSegment (imageUrlOf enc n) = Some enc"
  using assms
  by (simp add: urlPathSegment_def imageUrlOf_shape takeWhile_until Let_def)

lemma splitOn_queryOf:
  "splitOn 0x26 (queryOf n) =
     [ascii ''width=512'', ascii ''height=512'', ascii ''seed='' @ numberToString n,
      ascii ''nologo=true'', ascii ''model=flux'']"
proof -
  have 1: "0x26 \<notin> set (ascii ''width=512'')" by (simp add: ascii_Cons ascii_Nil)
  have 2: "0x26 \<notin> set (ascii ''height=512'')" by (simp add: ascii_Cons ascii_Nil)
  have 3: "0x26 \<notin> set (ascii ''seed='' @ numberToString n)"
    by (simp add: ascii_Cons ascii_Nil numberToString_no_separator)
  have 4: "0x26 \<notin> set (ascii ''nologo=true'')" by (simp add: ascii_Cons ascii_Nil)
  have 5: "0x26 \<notin> set (ascii ''model=flux'')" by (simp add: ascii_Cons ascii_Nil)
  show ?thesis
    unfolding queryOf_def
    by (simp only: splitOn_piece [OF 1] splitOn_piece [OF 2] splitOn_piece [OF 3]
        splitOn_piece [OF 4] splitOn_last [OF 5])
qed

lemma urlQuery_imageUrlOf:
  assumes "0x3F \<notin> set enc"
  shows "urlQuery (imageUrlOf enc n) =
     [(ascii ''width'', ascii ''512''), (ascii ''height'', ascii ''512''),
      (ascii ''seed'', numberToString n), (ascii ''nologo'', ascii ''true''),
      (ascii ''model'', ascii ''flux'')]"
proof -
  have "0x3F \<notin> set (ascii ''https://image.pollinations.ai/prompt/'' @ enc)"
    using assms base_no_question by simp
  from dropWhile_until [OF this, of "queryOf n"]
  have "drop 1 (dropWhile (\<lambda>c. c \<noteq> 0x3F) (imageUrlOf enc n)) = queryOf n"
    by (simp add: imageUrlOf_shape)
  then show ?thesis
    by (simp add: urlQuery_def splitOn_queryOf ascii_Cons ascii_Nil)
qed

lemma enhancePrompt_preset:
  "enhancePrompt p (styleName st) = p @ the (map_of styleSuffixes (styleName st))"
  by (cases st)
    (simp_all add: enhancePrompt_def getProperty_def styleSuffixes_def ascii_Cons ascii_Nil)

lemma suffix_wellFormed: "isWellFormed (the (map_of styleSuffixes (styleName st)))"
  by (cases st)
    (simp_all add: styleSuffixes_def ascii_Cons ascii_Nil isLeadSurrogate_def
      isTrailSurrogate_def)

lemma suffix_starts_with_comma:
  "\<exists>rest. the (map_of styleSuffixes (styleName st)) = 0x2C # rest"
  by (cases st) (simp_all add: styleSuffixes_def ascii_Cons ascii_Nil)

lemma isWellFormed_append_ill:
  "\<not> isWellFormed p \<Longrightarrow> \<not> isTrailSurrogate y \<Longrightarrow> \<not> isWellFormed (p @ y # ys)"
proof (induction p rule: isWellFormed.induct)
  case 1
  then show ?case by simp
next
  case (2 c cs)
  then show ?case by (cases cs) (auto split: if_splits)
qed

lemma enhancePrompt_wellFormed:
  "isWellFormed (enhancePrompt p (styleName st)) = isWellFormed p"
proof (cases "isWellFormed p")
  case True
  then show ?thesis
    by (simp add: enhancePrompt_preset isWellFormed_append suffix_wellFormed)
next
  case False
  obtain rest where r: "the (map_of styleSuffixes (styleName st)) = 0x2C # rest"
    using suffix_starts_with_comma by blast
  have "\<not> isTrailSurrogate 0x2C" by (simp add: isTrailSurrogate_def)
  from isWellFormed_append_ill [OF False this] False show ?thesis
    by (simp add: enhancePrompt_preset r)
qed

lemmas literal = ascii_Cons ascii_Nil

lemmas encode_eval = uriUnreserved_def isLeadSurrogate_def isTrailSurrogate_def utf8_def
  percentEscape_def hexDigit_def prepend_def surrogatePair_def

subsection \<open>The binary64 product and the seed\<close>

lemma bitlen_pos: "0 < m \<Longrightarrow> 1 \<le> bitlen m"
  using bitlen_eq_zero_iff [of m] bitlen_nonneg [of m] by linarith

lemma exponent_ge_one:
  assumes "1 \<le> x"
  shows "2 powi exponent x \<le> x" "x < 2 powi (exponent x + 1)"
proof -
  let ?m = "\<lfloor>x\<rfloor>"
  from assms have m: "0 < ?m" by simp
  let ?b = "bitlen ?m"
  from bitlen_pos [OF m] have b: "1 \<le> ?b" .
  from bitlen_bounds [OF m] have lo: "2 ^ nat (?b - 1) \<le> ?m" and hi: "?m < 2 ^ nat ?b"
    by simp_all
  have e: "exponent x = ?b - 1" using assms by (simp add: exponent_def)
  from lo have "real_of_int (2 ^ nat (?b - 1)) \<le> real_of_int ?m" by (simp only: of_int_le_iff)
  then have "(2::real) ^ nat (?b - 1) \<le> real_of_int ?m" by simp
  also have "\<dots> \<le> x" by simp
  finally show "2 powi exponent x \<le> x"
    using b by (simp add: e power_int_nonneg_exp)
  from hi have "?m + 1 \<le> 2 ^ nat ?b" by simp
  then have "real_of_int (?m + 1) \<le> real_of_int (2 ^ nat ?b)" by (simp only: of_int_le_iff)
  then have "real_of_int ?m + 1 \<le> 2 ^ nat ?b" by simp
  moreover have "x < real_of_int ?m + 1" by linarith
  ultimately have "x < 2 ^ nat ?b" by linarith
  then show "x < 2 powi (exponent x + 1)"
    using b by (simp add: e power_int_nonneg_exp)
qed

lemma exponent_lt_one:
  assumes "0 < x" "x < 1"
  shows "2 powi exponent x \<le> x" "x < 2 powi (exponent x + 1)"
proof -
  let ?y = "1 / x"
  let ?n = "\<lceil>?y\<rceil> - 1"
  from assms have y: "1 < ?y" by simp
  then have n: "0 < ?n" by (simp add: less_ceiling_iff)
  let ?b = "bitlen ?n"
  from bitlen_pos [OF n] have b: "1 \<le> ?b" .
  from bitlen_bounds [OF n] have lo: "2 ^ nat (?b - 1) \<le> ?n" and hi: "?n < 2 ^ nat ?b"
    by simp_all
  have e: "exponent x = - ?b" using assms by (simp add: exponent_def)
  have ny: "real_of_int ?n < ?y" "?y \<le> real_of_int ?n + 1"
    using ceiling_correct [of ?y] by simp_all
  from hi have "?n + 1 \<le> 2 ^ nat ?b" by simp
  then have "real_of_int (?n + 1) \<le> real_of_int (2 ^ nat ?b)" by (simp only: of_int_le_iff)
  then have "real_of_int ?n + 1 \<le> 2 ^ nat ?b" by simp
  with ny(2) have up: "?y \<le> 2 ^ nat ?b" by linarith
  from lo have "real_of_int (2 ^ nat (?b - 1)) \<le> real_of_int ?n" by (simp only: of_int_le_iff)
  then have "(2::real) ^ nat (?b - 1) \<le> real_of_int ?n" by simp
  with ny(1) have dn: "2 ^ nat (?b - 1) < ?y" by linarith
  have p: "(0::real) < 2 ^ nat ?b" "(0::real) < 2 ^ nat (?b - 1)" by simp_all
  from up assms(1) p(1) have "1 / 2 ^ nat ?b \<le> x"
    by (simp add: field_simps)
  moreover have "2 powi (- ?b) = 1 / (2::real) ^ nat ?b"
    using b by (simp add: power_int_minus_divide power_int_nonneg_exp)
  ultimately show "2 powi exponent x \<le> x" by (simp only: e)
  from dn assms(1) p(2) have "x < 1 / 2 ^ nat (?b - 1)"
    by (simp add: field_simps)
  moreover have "2 powi (- ?b + 1) = 1 / (2::real) ^ nat (?b - 1)"
  proof -
    have "- ?b + 1 = - (?b - 1)" by simp
    then have "2 powi (- ?b + 1) = (2::real) powi (- (?b - 1))" by (simp only:)
    also have "\<dots> = 1 / 2 powi (?b - 1)" by (rule power_int_minus_divide)
    also have "\<dots> = 1 / 2 ^ nat (?b - 1)" using b by (simp add: power_int_nonneg_exp)
    finally show ?thesis .
  qed
  ultimately show "x < 2 powi (exponent x + 1)" by (simp only: e)
qed

lemma exponent_bounds:
  assumes "0 < x"
  shows "2 powi exponent x \<le> x" "x < 2 powi (exponent x + 1)"
  using assms exponent_ge_one [of x] exponent_lt_one [of x] by (cases "1 \<le> x"; simp)+

lemma exponent_unique:
  assumes "0 < x" "2 powi e \<le> x" "x < 2 powi (e + 1)"
  shows "exponent x = e"
proof (rule antisym)
  show "exponent x \<le> e"
  proof (rule ccontr)
    assume "\<not> exponent x \<le> e"
    then have "e + 1 \<le> exponent x" by simp
    then have "(2::real) powi (e + 1) \<le> 2 powi exponent x"
      by (rule power_int_increasing) simp
    with exponent_bounds(1) [OF assms(1)] assms(3) show False by linarith
  qed
  show "e \<le> exponent x"
  proof (rule ccontr)
    assume "\<not> e \<le> exponent x"
    then have "exponent x + 1 \<le> e" by simp
    then have "(2::real) powi (exponent x + 1) \<le> 2 powi e"
      by (rule power_int_increasing) simp
    with exponent_bounds(2) [OF assms(1)] assms(2) show False by linarith
  qed
qed

lemma roundHalfEven_error: "\<bar>of_int (roundHalfEven y) - y\<bar> \<le> 1 / 2"
proof -
  have "of_int \<lfloor>y\<rfloor> \<le> y" "y < of_int \<lfloor>y\<rfloor> + 1" by linarith+
  then show ?thesis
    by (simp add: roundHalfEven_def Let_def)
qed

lemma roundHalfEven_of_int: "roundHalfEven (of_int k) = k"
  by (simp add: roundHalfEven_def)

lemma roundHalfEven_nonneg: "0 \<le> y \<Longrightarrow> 0 \<le> roundHalfEven y"
  by (simp add: roundHalfEven_def Let_def)

lemma round64_pos:
  assumes "0 < x"
  shows "round64 x =
           of_int (roundHalfEven (x / 2 powi (max (exponent x) (- 1022) - 52))) *
             2 powi (max (exponent x) (- 1022) - 52)"
  using assms by (simp add: round64_def Let_def)

lemma round64_zero: "round64 0 = 0"
  by (simp add: round64_def Let_def)

lemma round64_error:
  assumes "0 < x"
  shows "\<bar>round64 x - x\<bar> \<le> 2 powi (max (exponent x) (- 1022) - 52) / 2"
proof -
  let ?q = "(2::real) powi (max (exponent x) (- 1022) - 52)"
  have q: "0 < ?q" by simp
  have "\<bar>of_int (roundHalfEven (x / ?q)) - x / ?q\<bar> \<le> 1 / 2" by (rule roundHalfEven_error)
  then have "\<bar>of_int (roundHalfEven (x / ?q)) - x / ?q\<bar> * ?q \<le> 1 / 2 * ?q"
    using q by (simp only: mult_le_cancel_right_pos)
  moreover have "\<bar>of_int (roundHalfEven (x / ?q)) - x / ?q\<bar> * ?q =
      \<bar>of_int (roundHalfEven (x / ?q)) * ?q - x\<bar>"
  proof -
    have "\<bar>of_int (roundHalfEven (x / ?q)) - x / ?q\<bar> * ?q =
          \<bar>(of_int (roundHalfEven (x / ?q)) - x / ?q) * ?q\<bar>"
      using q by (simp add: abs_mult)
    also have "(of_int (roundHalfEven (x / ?q)) - x / ?q) * ?q =
          of_int (roundHalfEven (x / ?q)) * ?q - x"
      using q by (simp add: algebra_simps)
    finally show ?thesis .
  qed
  ultimately show ?thesis by (simp add: round64_pos [OF assms])
qed

lemma round64_nonneg: "0 \<le> x \<Longrightarrow> 0 \<le> round64 x"
proof (cases "x = 0")
  case True
  then show ?thesis by (simp add: round64_zero)
next
  case False
  assume "0 \<le> x"
  with False have x: "0 < x" by simp
  have "0 \<le> roundHalfEven (x / 2 powi (max (exponent x) (- 1022) - 52))"
    using x by (intro roundHalfEven_nonneg) simp
  then show ?thesis by (simp add: round64_pos [OF x])
qed


lemma quantum_below:
  assumes "0 < x" "x < 2 powi (n + 1)" "- 1022 \<le> n"
  shows "(2::real) powi (max (exponent x) (- 1022) - 52) \<le> 2 powi (n - 52)"
proof -
  have "exponent x \<le> n"
  proof (rule ccontr)
    assume "\<not> exponent x \<le> n"
    then have "n + 1 \<le> exponent x" by simp
    then have "(2::real) powi (n + 1) \<le> 2 powi exponent x"
      by (rule power_int_increasing) simp
    with exponent_bounds(1) [OF assms(1)] assms(2) show False by linarith
  qed
  with assms(3) have "max (exponent x) (- 1022) - 52 \<le> n - 52" by simp
  then show ?thesis by (rule power_int_increasing) simp
qed

lemma round64_near:
  assumes "0 \<le> x" "x < 2 ^ 20"
  shows "\<bar>round64 x - x\<bar> \<le> 1 / 2 ^ 34"
proof (cases "x = 0")
  case True
  then show ?thesis by (simp add: round64_zero)
next
  case False
  with assms have x: "0 < x" by simp
  have "x < 2 powi (19 + 1)" using assms(2) by simp
  from quantum_below [OF x this]
  have "(2::real) powi (max (exponent x) (- 1022) - 52) \<le> 2 powi (19 - 52)" by simp
  also have "\<dots> = 1 / 2 ^ 33" by (simp add: power_int_minus_divide)
  finally have "(2::real) powi (max (exponent x) (- 1022) - 52) / 2 \<le> 1 / 2 ^ 34" by simp
  with round64_error [OF x] show ?thesis by linarith
qed

lemma binary64_below_one:
  assumes "isBinary64 r" "0 \<le> r" "r < 1"
  shows "r \<le> 1 - 1 / 2 ^ 53"
proof (cases "r < 1 / 2")
  case True
  then show ?thesis by simp
next
  case False
  then have h: "1 / 2 \<le> r" by simp
  then have pos: "0 < r" by simp
  have "exponent r = - 1"
    using pos h assms(3) by (intro exponent_unique) (simp_all add: power_int_minus_divide)
  then have q: "(2::real) powi (max (exponent r) (- 1022) - 52) = 1 / 2 ^ 53"
    by (simp add: power_int_minus_divide)
  let ?k = "roundHalfEven (r / (1 / 2 ^ 53))"
  from assms(1) have "round64 r = r" by (simp add: isBinary64_def)
  then have r: "r = of_int ?k * (1 / 2 ^ 53)"
    by (simp only: round64_pos [OF pos] q)
  with assms(3) have "of_int ?k * (1 / 2 ^ 53) < (1::real)" by simp
  then have "real_of_int ?k < 2 ^ 53" by (simp add: field_simps)
  then have "real_of_int ?k < real_of_int (2 ^ 53)" by simp
  then have "?k < 2 ^ 53" by (simp only: of_int_less_iff)
  then have "?k \<le> 2 ^ 53 - 1" by simp
  then have "real_of_int ?k \<le> real_of_int (2 ^ 53 - 1)" by (simp only: of_int_le_iff)
  then have "real_of_int ?k \<le> 2 ^ 53 - 1" by simp
  then have "of_int ?k * (1 / 2 ^ 53) \<le> (2 ^ 53 - 1) * (1 / 2 ^ 53 :: real)"
    by (intro mult_right_mono) simp_all
  also have "\<dots> = 1 - 1 / 2 ^ 53" by (simp add: field_simps)
  finally show ?thesis using r by simp
qed

lemma product_below_million:
  assumes "0 \<le> x" "x \<le> 1000000 - 1000000 / 2 ^ 53"
  shows "round64 x < 1000000"
proof (cases "x < 2 ^ 19")
  case True
  with assms(1) have "x < 2 ^ 20" by simp
  from round64_near [OF assms(1) this] have "round64 x \<le> x + 1 / 2 ^ 34" by linarith
  with True show ?thesis by simp
next
  case False
  then have lo: "2 ^ 19 \<le> x" by simp
  then have pos: "0 < x" by simp
  from assms(2) have hi: "x < 2 ^ 20" by simp
  have "exponent x = 19"
    using pos lo hi by (intro exponent_unique) simp_all
  then have q: "(2::real) powi (max (exponent x) (- 1022) - 52) = 1 / 2 ^ 33"
    by (simp add: power_int_minus_divide)
  let ?k = "roundHalfEven (x / (1 / 2 ^ 33))"
  have r: "round64 x = of_int ?k * (1 / 2 ^ 33)"
    by (simp only: round64_pos [OF pos] q)
  have "real_of_int ?k \<le> x / (1 / 2 ^ 33) + 1 / 2"
    using roundHalfEven_error [of "x / (1 / 2 ^ 33)"] by linarith
  also have "x / (1 / 2 ^ 33) \<le> (1000000 - 1000000 / 2 ^ 53) / (1 / 2 ^ 33)"
    using assms(2) by (intro divide_right_mono) simp_all
  finally have "real_of_int ?k \<le> (1000000 - 1000000 / 2 ^ 53) / (1 / 2 ^ 33) + 1 / 2"
    by simp
  also have "\<dots> < 1000000 * 2 ^ 33" by simp
  finally have "real_of_int ?k < real_of_int (1000000 * 2 ^ 33)" by simp
  then have "?k < 1000000 * 2 ^ 33" by (simp only: of_int_less_iff)
  then have "real_of_int ?k * (1 / 2 ^ 33) < 1000000 * 2 ^ 33 * (1 / 2 ^ 33)"
    by (intro mult_strict_right_mono) simp_all
  then show ?thesis by (simp add: r)
qed

lemma seed_range:
  assumes "isBinary64 random" "0 \<le> random" "random < 1"
  shows "0 \<le> \<lfloor>round64 (random * 1000000)\<rfloor>" "\<lfloor>round64 (random * 1000000)\<rfloor> < 1000000"
proof -
  from assms(2) have x: "0 \<le> random * 1000000" by simp
  from round64_nonneg [OF x] show "0 \<le> \<lfloor>round64 (random * 1000000)\<rfloor>" by simp
  from binary64_below_one [OF assms] have "random * 1000000 \<le> (1 - 1 / 2 ^ 53) * 1000000"
    by (intro mult_right_mono) simp_all
  then have "random * 1000000 \<le> 1000000 - 1000000 / 2 ^ 53" by (simp add: algebra_simps)
  from product_below_million [OF x this]
  show "\<lfloor>round64 (random * 1000000)\<rfloor> < 1000000" by (simp add: floor_less_iff)
qed


lemma round64_binade:
  assumes "0 < x" "2 powi e \<le> x" "x < 2 powi (e + 1)" "- 1022 \<le> e"
  shows "round64 x = of_int (roundHalfEven (x / 2 powi (e - 52))) * 2 powi (e - 52)"
proof -
  have "exponent x = e" by (rule exponent_unique [OF assms(1-3)])
  with assms(4) have "max (exponent x) (- 1022) = e" by simp
  then show ?thesis by (simp only: round64_pos [OF assms(1)])
qed

lemma round64_250000: "round64 250000 = 250000"
proof -
  have "round64 250000 =
      of_int (roundHalfEven (250000 / 2 powi (17 - 52))) * 2 powi (17 - 52)"
    by (rule round64_binade) simp_all
  also have "\<dots> = 250000"
    by (simp add: power_int_minus_divide roundHalfEven_def)
  finally show ?thesis .
qed

lemma round64_500000: "round64 500000 = 500000"
proof -
  have "round64 500000 =
      of_int (roundHalfEven (500000 / 2 powi (18 - 52))) * 2 powi (18 - 52)"
    by (rule round64_binade) simp_all
  also have "\<dots> = 500000"
    by (simp add: power_int_minus_divide roundHalfEven_def)
  finally show ?thesis .
qed

lemma round64_750000: "round64 750000 = 750000"
proof -
  have "round64 750000 =
      of_int (roundHalfEven (750000 / 2 powi (19 - 52))) * 2 powi (19 - 52)"
    by (rule round64_binade) simp_all
  also have "\<dots> = 750000"
    by (simp add: power_int_minus_divide roundHalfEven_def)
  finally show ?thesis .
qed

lemma binary64_quarter: "isBinary64 (1 / 4)"
proof -
  have "round64 (1 / 4) =
      of_int (roundHalfEven (1 / 4 / 2 powi (- 2 - 52))) * 2 powi (- 2 - 52)"
    by (rule round64_binade) (simp_all add: power_int_minus_divide)
  also have "\<dots> = 1 / 4"
    by (simp add: power_int_minus_divide roundHalfEven_def)
  finally show ?thesis by (simp add: isBinary64_def)
qed

text \<open>
  Two draws whose seeds coincide although the exact products have different floors: the
  binary64 numbers nearest to 0.525453 and to 0.5254535. The first product is rounded up
  to a whole number.
\<close>

lemma seed_rounds_up:
  "\<lfloor>round64 (2366429935000709 / 2 ^ 52 * 1000000)\<rfloor> = 525453"
  "\<lfloor>2366429935000709 / 2 ^ 52 * 1000000 :: real\<rfloor> = 525452"
  "\<lfloor>round64 (2366432186800523 / 2 ^ 52 * 1000000)\<rfloor> = 525453"
proof -
  let ?x = "2366429935000709 / 2 ^ 52 * 1000000 :: real"
  let ?y = "2366432186800523 / 2 ^ 52 * 1000000 :: real"
  have "round64 ?x = of_int (roundHalfEven (?x / 2 powi (19 - 52))) * 2 powi (19 - 52)"
    by (rule round64_binade) simp_all
  also have "\<dots> = 525453"
    by (simp add: power_int_minus_divide roundHalfEven_def)
  finally show "\<lfloor>round64 ?x\<rfloor> = 525453" by simp
  show "\<lfloor>?x\<rfloor> = 525452" by simp
  have "round64 ?y = of_int (roundHalfEven (?y / 2 powi (19 - 52))) * 2 powi (19 - 52)"
    by (rule round64_binade) simp_all
  also have "\<dots> = 1050907 / 2"
    by (simp add: power_int_minus_divide roundHalfEven_def)
  finally have v: "round64 ?y = 1050907 / 2" .
  have "\<lfloor>1050907 / 2 :: real\<rfloor> = 525453" by simp
  then show "\<lfloor>round64 ?y\<rfloor> = 525453" by (simp only: v)
qed

lemma card_between:
  fixes a b :: real
  shows "card {k :: nat. a \<le> real k \<and> real k < b} \<le> nat (\<lceil>b\<rceil> - \<lceil>a\<rceil>)"
proof -
  let ?S = "{k :: nat. a \<le> real k \<and> real k < b}"
  have sub: "int ` ?S \<subseteq> {\<lceil>a\<rceil> ..< \<lceil>b\<rceil>}"
  proof
    fix i assume "i \<in> int ` ?S"
    then obtain k where k: "i = int k" "a \<le> real k" "real k < b" by auto
    from k(2) have "\<lceil>a\<rceil> \<le> int k" by (simp add: ceiling_le_iff)
    moreover from k(3) have "int k < \<lceil>b\<rceil>" by (simp add: less_ceiling_iff)
    ultimately show "i \<in> {\<lceil>a\<rceil> ..< \<lceil>b\<rceil>}" using k(1) by simp
  qed
  have "card ?S = card (int ` ?S)" by (simp add: card_image)
  also have "\<dots> \<le> card {\<lceil>a\<rceil> ..< \<lceil>b\<rceil>}" by (rule card_mono [OF _ sub]) simp
  also have "\<dots> = nat (\<lceil>b\<rceil> - \<lceil>a\<rceil>)" by simp
  finally show ?thesis .
qed

lemma card_between_real:
  fixes a b :: real
  assumes "a \<le> b"
  shows "real (card {k :: nat. a \<le> real k \<and> real k < b}) < b - a + 1"
proof -
  from assms have "\<lceil>a\<rceil> \<le> \<lceil>b\<rceil>" by (rule ceiling_mono)
  then have "real (nat (\<lceil>b\<rceil> - \<lceil>a\<rceil>)) = of_int \<lceil>b\<rceil> - of_int \<lceil>a\<rceil>" by simp
  also have "\<dots> < b - a + 1" by linarith
  finally have "real (nat (\<lceil>b\<rceil> - \<lceil>a\<rceil>)) < b - a + 1" .
  moreover have "real (card {k :: nat. a \<le> real k \<and> real k < b}) \<le> real (nat (\<lceil>b\<rceil> - \<lceil>a\<rceil>))"
    using card_between [of a b] by simp
  ultimately show ?thesis by linarith
qed

lemma repeats_count:
  "real (card (repeats n s)) < (1 + 1 / 2 ^ 33) * (2 ^ n / 1000000) + 1"
proof -
  define c :: real where "c = 2 ^ n / 1000000"
  have c: "0 < c" by (simp add: c_def)
  define a where "a = (real_of_int s - 1 / 2 ^ 34) * c"
  define b where "b = (real_of_int s + 1 + 1 / 2 ^ 34) * c"
  have sub: "repeats n s \<subseteq> {k. a \<le> real k \<and> real k < b}"
  proof
    fix k assume "k \<in> repeats n s"
    then have k: "k < 2 ^ n" and f: "\<lfloor>round64 (real k / 2 ^ n * 1000000)\<rfloor> = s"
      by (simp_all add: repeats_def)
    define x where "x = real k / 2 ^ n * 1000000"
    have x0: "0 \<le> x" by (simp add: x_def)
    from k have "real k < real (2 ^ n)" by (simp only: of_nat_less_iff)
    then have "real k < 2 ^ n" by simp
    then have "real k / 2 ^ n < 1" by simp
    then have "real k / 2 ^ n * 1000000 < 1 * 1000000" by (rule mult_strict_right_mono) simp
    then have "x < 1000000" by (simp only: x_def mult_1)
    then have x1: "x < 2 ^ 20" by simp
    have xc: "x * c = real k" by (simp add: x_def c_def)
    from round64_near [OF x0 x1] have near: "\<bar>round64 x - x\<bar> \<le> 1 / 2 ^ 34" .
    from f have "real_of_int s \<le> round64 x" "round64 x < real_of_int s + 1"
      unfolding x_def by linarith+
    with near have lo: "real_of_int s - 1 / 2 ^ 34 \<le> x"
      and hi: "x < real_of_int s + 1 + 1 / 2 ^ 34"
      by linarith+
    from lo c have "(real_of_int s - 1 / 2 ^ 34) * c \<le> x * c"
      by (intro mult_right_mono) simp_all
    moreover from hi c have "x * c < (real_of_int s + 1 + 1 / 2 ^ 34) * c"
      by (intro mult_strict_right_mono) simp_all
    ultimately show "k \<in> {k. a \<le> real k \<and> real k < b}"
      by (simp only: xc a_def b_def mem_Collect_eq)
  qed
  have fin: "finite {k :: nat. a \<le> real k \<and> real k < b}"
  proof (rule finite_subset)
    show "{k :: nat. a \<le> real k \<and> real k < b} \<subseteq> {..< nat \<lceil>b\<rceil>}"
    proof
      fix k :: nat assume "k \<in> {k. a \<le> real k \<and> real k < b}"
      then have "real k < b" by simp
      then have "int k < \<lceil>b\<rceil>" by (simp add: less_ceiling_iff)
      then show "k \<in> {..< nat \<lceil>b\<rceil>}" by simp
    qed
    show "finite {..< nat \<lceil>b\<rceil>}" by simp
  qed
  have "b - a = (1 + 1 / 2 ^ 33) * c" by (simp add: a_def b_def algebra_simps)
  then have d: "b - a + 1 = (1 + 1 / 2 ^ 33) * c + 1" by simp
  from c have "0 \<le> (1 + 1 / 2 ^ 33) * c" by simp
  with \<open>b - a = (1 + 1 / 2 ^ 33) * c\<close> have ab: "a \<le> b" by linarith
  have "real (card (repeats n s)) \<le> real (card {k :: nat. a \<le> real k \<and> real k < b})"
    using card_mono [OF fin sub] by simp
  also have "\<dots> < b - a + 1" by (rule card_between_real [OF ab])
  finally show ?thesis by (simp only: d c_def)
qed

subsection \<open>The response\<close>

lemma generateImage_Inr:
  assumes "encodeURIComponent (enhancePrompt p (styleName (style params))) = Inr enc"
  shows "generateImage p sketch params random =
     Inr \<lparr>success = True, images = [imageUrlOf enc \<lfloor>round64 (random * 1000000)\<rfloor>], error = None,
          metadata = Some \<lparr>generationTime = 1000, model = ascii ''pollinations-flux'',
                           seed = Some \<lfloor>round64 (random * 1000000)\<rfloor>\<rparr>,
          imageUrl = Some (imageUrlOf enc \<lfloor>round64 (random * 1000000)\<rfloor>)\<rparr>"
  using assms by (simp add: generateImage_def Let_def)

lemma generateImage_Inl:
  assumes "\<not> isWellFormed p"
  shows "generateImage p sketch params random = Inl URIError"
proof -
  from assms have "\<not> isWellFormed (enhancePrompt p (styleName (style params)))"
    by (simp add: enhancePrompt_wellFormed)
  then have "encodeURIComponent (enhancePrompt p (styleName (style params))) = Inl URIError"
    by (rule encodeURIComponent_illFormed)
  then show ?thesis by (simp add: generateImage_def Let_def)
qed

lemma encode_enhanced:
  assumes "isWellFormed p"
  obtains enc where "encodeURIComponent (enhancePrompt p (styleName (style params))) = Inr enc"
    "0x3F \<notin> set enc"
proof -
  from assms have "isWellFormed (enhancePrompt p (styleName (style params)))"
    by (simp add: enhancePrompt_wellFormed)
  then obtain enc where
    e: "encodeURIComponent (enhancePrompt p (styleName (style params))) = Inr enc"
    using encodeURIComponent_wellFormed by blast
  then have "0x3F \<notin> set enc" by (rule encodeURIComponent_no_question)
  with e that show thesis by blast
qed

lemmas decode_eval = hexValue_def escapedOctet_def continuation_def utf16_def prepend_def

lemma red_fox_enhanced:
  "enhancePrompt (ascii ''a red fox'') (ascii ''anime'') =
     ascii ''a red fox, anime style, studio ghibli, vibrant, cel shaded, clean lines''"
  by (simp add: enhancePrompt_def getProperty_def styleSuffixes_def literal)

lemma red_fox_encoded:
  "encodeURIComponent
     (ascii ''a red fox, anime style, studio ghibli, vibrant, cel shaded, clean lines'') =
   Inr (ascii ''a%20red%20fox%2C%20anime%20style%2C%20studio%20ghibli%2C%20vibrant%2C%20cel%20shaded%2C%20clean%20lines'')"
  by (simp add: literal encode_eval)

lemma red_fox_decoded:
  "decodeURIComponent
     (ascii ''a%20red%20fox%2C%20anime%20style%2C%20studio%20ghibli%2C%20vibrant%2C%20cel%20shaded%2C%20clean%20lines'') =
   Inr (ascii ''a red fox, anime style, studio ghibli, vibrant, cel shaded, clean lines'')"
  by (simp add: literal decode_eval)

lemma numberToString_inj:
  assumes "0 \<le> m" "0 \<le> n" "numberToString m = numberToString n"
  shows "m = n"
proof -
  have "Some m = parseSeed (numberToString m)"
    by (rule parseSeed_numberToString [OF assms(1), symmetric])
  also have "\<dots> = parseSeed (numberToString n)"
    by (simp only: assms(3))
  also have "\<dots> = Some n"
    by (rule parseSeed_numberToString [OF assms(2)])
  finally show ?thesis by (simp only: option.inject)
qed

lemma imageUrlOf_inj:
  assumes "0 \<le> m" "0 \<le> n" "imageUrlOf enc m = imageUrlOf enc n"
  shows "m = n"
proof -
  from assms(3) have "numberToString m @ ascii ''&nologo=true&model=flux'' =
      numberToString n @ ascii ''&nologo=true&model=flux''"
    by (simp add: imageUrlOf_def)
  then have "numberToString m = numberToString n" by simp
  with assms(1,2) show ?thesis by (rule numberToString_inj)
qed

lemma numberToString_500000: "numberToString 500000 = ascii ''500000''"
  by (simp add: numberToString_def digits.simps literal)

lemma numberToString_250000: "numberToString 250000 = ascii ''250000''"
  by (simp add: numberToString_def digits.simps literal)

lemma numberToString_750000: "numberToString 750000 = ascii ''750000''"
  by (simp add: numberToString_def digits.simps literal)

subsection \<open>Decoding undoes encoding\<close>

lemma hexValue_hexDigit: "n < 16 \<Longrightarrow> hexValue (hexDigit n) = Some n"
  by (drule below_16) (elim insertE emptyE; simp add: hexDigit_def hexValue_def)

lemma percentEscape_append:
  "percentEscape b @ rest = 0x25 # hexDigit (b div 16) # hexDigit (b mod 16) # rest"
  by (simp add: percentEscape_def)

lemma escapedOctet_escape:
  assumes "b < 256"
  shows "escapedOctet (0x25 # hexDigit (b div 16) # hexDigit (b mod 16) # rest) = Some b"
proof -
  from assms have "b div 16 < 16" "b mod 16 < 16" by simp_all
  then have "hexValue (hexDigit (b div 16)) = Some (b div 16)"
    "hexValue (hexDigit (b mod 16)) = Some (b mod 16)"
    by (simp_all only: hexValue_hexDigit)
  then show ?thesis by (simp add: escapedOctet_def)
qed

lemma continuation_escape:
  assumes "0x80 \<le> b" "b < 0xC0"
  shows "continuation (0x25 # hexDigit (b div 16) # hexDigit (b mod 16) # rest) = Some (b mod 0x40)"
proof -
  from assms have "b < 256" by simp
  from escapedOctet_escape [OF this] assms show ?thesis
    by (simp add: continuation_def)
qed

lemma decode_one:
  assumes "b < 0x80"
  shows "decodeURIComponent (percentEscape b @ zs) = prepend [of_nat b] (decodeURIComponent zs)"
proof -
  from assms have "b < 256" by simp
  from escapedOctet_escape [OF this] assms show ?thesis
    by (simp add: percentEscape_append)
qed

lemma decode_two:
  assumes "0xC2 \<le> b1" "b1 < 0xE0" "0x80 \<le> b2" "b2 < 0xC0"
  shows "decodeURIComponent (percentEscape b1 @ percentEscape b2 @ zs) =
         prepend (utf16 (b1 mod 0x20 * 0x40 + b2 mod 0x40)) (decodeURIComponent zs)"
proof -
  from assms have b: "b1 < 256" "\<not> b1 < 0x80" by simp_all
  from escapedOctet_escape [OF b(1)] continuation_escape [OF assms(3,4)] assms(1,2) b(2)
  show ?thesis
    by (simp add: percentEscape_append)
qed

lemma decode_three:
  assumes "0xE0 \<le> b1" "b1 < 0xF0" "0x80 \<le> b2" "b2 < 0xC0" "0x80 \<le> b3" "b3 < 0xC0"
    and "\<not> (b1 mod 0x10 * 0x1000 + b2 mod 0x40 * 0x40 + b3 mod 0x40 < 0x800)"
    and "\<not> (0xD800 \<le> b1 mod 0x10 * 0x1000 + b2 mod 0x40 * 0x40 + b3 mod 0x40 \<and>
            b1 mod 0x10 * 0x1000 + b2 mod 0x40 * 0x40 + b3 mod 0x40 < 0xE000)"
  shows "decodeURIComponent (percentEscape b1 @ percentEscape b2 @ percentEscape b3 @ zs) =
         prepend (utf16 (b1 mod 0x10 * 0x1000 + b2 mod 0x40 * 0x40 + b3 mod 0x40))
           (decodeURIComponent zs)"
proof -
  from assms(1,2) have b: "b1 < 256" "\<not> b1 < 0x80" "\<not> (0xC2 \<le> b1 \<and> b1 < 0xE0)" by simp_all
  from escapedOctet_escape [OF b(1)] continuation_escape [OF assms(3,4)]
    continuation_escape [OF assms(5,6)] assms(1,2,7,8) b(2,3)
  show ?thesis
    by (simp add: percentEscape_append Let_def) blast
qed

lemma decode_four:
  assumes "0xF0 \<le> b1" "b1 < 0xF8" "0x80 \<le> b2" "b2 < 0xC0" "0x80 \<le> b3" "b3 < 0xC0"
    "0x80 \<le> b4" "b4 < 0xC0"
    and "\<not> (b1 mod 8 * 0x40000 + b2 mod 0x40 * 0x1000 + b3 mod 0x40 * 0x40 + b4 mod 0x40 < 0x10000)"
    and "\<not> (0x10FFFF < b1 mod 8 * 0x40000 + b2 mod 0x40 * 0x1000 + b3 mod 0x40 * 0x40 + b4 mod 0x40)"
  shows "decodeURIComponent
           (percentEscape b1 @ percentEscape b2 @ percentEscape b3 @ percentEscape b4 @ zs) =
         prepend (utf16 (b1 mod 8 * 0x40000 + b2 mod 0x40 * 0x1000 + b3 mod 0x40 * 0x40 + b4 mod 0x40))
           (decodeURIComponent zs)"
proof -
  from assms(1,2) have b: "b1 < 256" "\<not> b1 < 0x80" "\<not> (0xC2 \<le> b1 \<and> b1 < 0xE0)"
    "\<not> (0xE0 \<le> b1 \<and> b1 < 0xF0)" by simp_all
  from escapedOctet_escape [OF b(1)] continuation_escape [OF assms(3,4)]
    continuation_escape [OF assms(5,6)] continuation_escape [OF assms(7,8)] assms(1,2,9,10) b(2,3,4)
  show ?thesis
    by (simp add: percentEscape_append Let_def)
qed


lemma lead_mod2: "x < 32 \<Longrightarrow> (0xC0 + x) mod 0x20 = (x::nat)"
proof -
  assume x: "x < 32"
  have "(0xC0 + x) mod 0x20 = (6 * 0x20 + x) mod 0x20" by simp
  also have "\<dots> = x mod 0x20" by (rule mod_mult_self3)
  also have "\<dots> = x" using x by simp
  finally show ?thesis .
qed

lemma lead_mod3: "x < 16 \<Longrightarrow> (0xE0 + x) mod 0x10 = (x::nat)"
proof -
  assume x: "x < 16"
  have "(0xE0 + x) mod 0x10 = (14 * 0x10 + x) mod 0x10" by simp
  also have "\<dots> = x mod 0x10" by (rule mod_mult_self3)
  also have "\<dots> = x" using x by simp
  finally show ?thesis .
qed

lemma lead_mod4: "x < 8 \<Longrightarrow> (0xF0 + x) mod 8 = (x::nat)"
proof -
  assume x: "x < 8"
  have "(0xF0 + x) mod 8 = (30 * 8 + x) mod 8" by simp
  also have "\<dots> = x mod 8" by (rule mod_mult_self3)
  also have "\<dots> = x" using x by simp
  finally show ?thesis .
qed

lemma payload_mod: "(0x80 + x mod 0x40) mod 0x40 = (x::nat) mod 0x40"
proof -
  have "(0x80 + x mod 0x40) mod 0x40 = (2 * 0x40 + x mod 0x40) mod 0x40" by simp
  also have "\<dots> = x mod 0x40 mod 0x40" by (rule mod_mult_self3)
  also have "\<dots> = x mod 0x40" by simp
  finally show ?thesis .
qed

lemma payload_range: "0x80 \<le> 0x80 + (x::nat) mod 0x40" "0x80 + (x::nat) mod 0x40 < 0xC0"
proof -
  show "0x80 \<le> 0x80 + x mod 0x40" by simp
  have "x mod 0x40 < 0x40" by simp
  then show "0x80 + x mod 0x40 < 0xC0" by simp
qed

lemma digits2: "(n::nat) div a mod b * a + n mod a = n mod (a * b)"
  by (simp add: mod_mult2_eq)

lemma join3:
  "(cp::nat) div 0x1000 * 0x1000 + (cp div 0x40 mod 0x40 * 0x40 + cp mod 0x40) = cp"
proof -
  have "cp div 0x40 mod 0x40 * 0x40 + cp mod 0x40 = cp mod (0x40 * 0x40)"
    by (rule digits2)
  then have a: "cp div 0x40 mod 0x40 * 0x40 + cp mod 0x40 = cp mod 0x1000" by simp
  have c: "cp div 0x1000 * 0x1000 + cp mod 0x1000 = cp" by simp
  show ?thesis by (simp only: a c)
qed

lemma join4:
  "(cp::nat) div 0x40000 * 0x40000 + (cp div 0x1000 mod 0x40 * 0x1000 +
     (cp div 0x40 mod 0x40 * 0x40 + cp mod 0x40)) = cp"
proof -
  have "cp div 0x40 mod 0x40 * 0x40 + cp mod 0x40 = cp mod (0x40 * 0x40)"
    by (rule digits2)
  then have a: "cp div 0x40 mod 0x40 * 0x40 + cp mod 0x40 = cp mod 0x1000" by simp
  have "cp div 0x1000 mod 0x40 * 0x1000 + cp mod 0x1000 = cp mod (0x1000 * 0x40)"
    by (rule digits2)
  then have b: "cp div 0x1000 mod 0x40 * 0x1000 + cp mod 0x1000 = cp mod 0x40000" by simp
  have c: "cp div 0x40000 * 0x40000 + cp mod 0x40000 = cp" by simp
  show ?thesis by (simp only: a b c)
qed

lemma lead_bounds2:
  assumes "0x80 \<le> cp" "cp < 0x800"
  shows "2 \<le> (cp::nat) div 0x40" "cp div 0x40 < 32"
proof -
  from assms(1) have "0x80 div 0x40 \<le> cp div 0x40" by (rule div_le_mono)
  then show "2 \<le> cp div 0x40" by simp
  from assms(2) show "cp div 0x40 < 32" by (intro less_mult_imp_div_less) simp
qed

lemma lead_bounds3: "cp < 0x10000 \<Longrightarrow> (cp::nat) div 0x1000 < 16"
  by (intro less_mult_imp_div_less) simp

lemma lead_bounds4: "cp < 0x110000 \<Longrightarrow> (cp::nat) div 0x40000 < 8"
  by (intro less_mult_imp_div_less) simp

lemma decode_utf8_1:
  assumes "cp < 0x80"
  shows "decodeURIComponent (concat (map percentEscape (utf8 cp)) @ zs) =
         prepend (utf16 cp) (decodeURIComponent zs)"
proof -
  from assms have "utf8 cp = [cp]" "utf16 cp = [of_nat cp]"
    by (simp_all add: utf8_def utf16_def)
  then show ?thesis by (simp add: decode_one [OF assms])
qed

lemma decode_utf8_2:
  assumes "0x80 \<le> cp" "cp < 0x800"
  shows "decodeURIComponent (concat (map percentEscape (utf8 cp)) @ zs) =
         prepend (utf16 cp) (decodeURIComponent zs)"
proof -
  let ?b1 = "0xC0 + cp div 0x40" and ?b2 = "0x80 + cp mod 0x40"
  from assms have u: "utf8 cp = [?b1, ?b2]" by (simp add: utf8_def)
  from lead_bounds2 [OF assms] have r: "0xC2 \<le> ?b1" "?b1 < 0xE0" by simp_all
  have "?b1 mod 0x20 * 0x40 + ?b2 mod 0x40 = cp div 0x40 * 0x40 + cp mod 0x40"
    by (simp only: lead_mod2 [OF lead_bounds2(2) [OF assms]] payload_mod)
  then have j: "?b1 mod 0x20 * 0x40 + ?b2 mod 0x40 = cp" by simp
  have "decodeURIComponent (percentEscape ?b1 @ percentEscape ?b2 @ zs) =
        prepend (utf16 (?b1 mod 0x20 * 0x40 + ?b2 mod 0x40)) (decodeURIComponent zs)"
    by (rule decode_two [OF r payload_range])
  then show ?thesis by (simp only: u j list.map concat.simps append_Nil2 append_assoc)
qed

lemma decode_utf8_3:
  assumes "0x800 \<le> cp" "cp < 0x10000" "\<not> (0xD800 \<le> cp \<and> cp < 0xE000)"
  shows "decodeURIComponent (concat (map percentEscape (utf8 cp)) @ zs) =
         prepend (utf16 cp) (decodeURIComponent zs)"
proof -
  let ?b1 = "0xE0 + cp div 0x1000" and ?b2 = "0x80 + cp div 0x40 mod 0x40"
    and ?b3 = "0x80 + cp mod 0x40"
  from assms have u: "utf8 cp = [?b1, ?b2, ?b3]" by (simp add: utf8_def)
  from lead_bounds3 [OF assms(2)] have r: "0xE0 \<le> ?b1" "?b1 < 0xF0" by simp_all
  have "?b1 mod 0x10 * 0x1000 + ?b2 mod 0x40 * 0x40 + ?b3 mod 0x40 =
        cp div 0x1000 * 0x1000 + (cp div 0x40 mod 0x40 * 0x40 + cp mod 0x40)"
    by (simp only: lead_mod3 [OF lead_bounds3 [OF assms(2)]] payload_mod mod_mod_trivial
        add.assoc)
  then have j: "?b1 mod 0x10 * 0x1000 + ?b2 mod 0x40 * 0x40 + ?b3 mod 0x40 = cp"
    by (simp only: join3)
  from assms(1) have n1: "\<not> (?b1 mod 0x10 * 0x1000 + ?b2 mod 0x40 * 0x40 + ?b3 mod 0x40 < 0x800)"
    by (simp only: j not_less)
  have n2: "\<not> (0xD800 \<le> ?b1 mod 0x10 * 0x1000 + ?b2 mod 0x40 * 0x40 + ?b3 mod 0x40 \<and>
      ?b1 mod 0x10 * 0x1000 + ?b2 mod 0x40 * 0x40 + ?b3 mod 0x40 < 0xE000)"
    unfolding j by (rule assms(3))
  have "decodeURIComponent (percentEscape ?b1 @ percentEscape ?b2 @ percentEscape ?b3 @ zs) =
        prepend (utf16 (?b1 mod 0x10 * 0x1000 + ?b2 mod 0x40 * 0x40 + ?b3 mod 0x40))
          (decodeURIComponent zs)"
    by (rule decode_three [OF r payload_range payload_range n1 n2])
  then show ?thesis by (simp only: u j list.map concat.simps append_Nil2 append_assoc)
qed

lemma decode_utf8_4:
  assumes "0x10000 \<le> cp" "cp < 0x110000"
  shows "decodeURIComponent (concat (map percentEscape (utf8 cp)) @ zs) =
         prepend (utf16 cp) (decodeURIComponent zs)"
proof -
  let ?b1 = "0xF0 + cp div 0x40000" and ?b2 = "0x80 + cp div 0x1000 mod 0x40"
    and ?b3 = "0x80 + cp div 0x40 mod 0x40" and ?b4 = "0x80 + cp mod 0x40"
  from assms have u: "utf8 cp = [?b1, ?b2, ?b3, ?b4]" by (simp add: utf8_def)
  from lead_bounds4 [OF assms(2)] have r: "0xF0 \<le> ?b1" "?b1 < 0xF8" by simp_all
  have "?b1 mod 8 * 0x40000 + ?b2 mod 0x40 * 0x1000 + ?b3 mod 0x40 * 0x40 + ?b4 mod 0x40 =
        cp div 0x40000 * 0x40000 + (cp div 0x1000 mod 0x40 * 0x1000 +
          (cp div 0x40 mod 0x40 * 0x40 + cp mod 0x40))"
    by (simp only: lead_mod4 [OF lead_bounds4 [OF assms(2)]] payload_mod mod_mod_trivial
        add.assoc)
  then have j: "?b1 mod 8 * 0x40000 + ?b2 mod 0x40 * 0x1000 + ?b3 mod 0x40 * 0x40 + ?b4 mod 0x40 = cp"
    by (simp only: join4)
  from assms(1) have n1: "\<not> (?b1 mod 8 * 0x40000 + ?b2 mod 0x40 * 0x1000 + ?b3 mod 0x40 * 0x40 +
      ?b4 mod 0x40 < 0x10000)"
    by (simp only: j not_less)
  have n2: "\<not> (0x10FFFF < ?b1 mod 8 * 0x40000 + ?b2 mod 0x40 * 0x1000 +
      ?b3 mod 0x40 * 0x40 + ?b4 mod 0x40)"
    unfolding j using assms(2) by simp
  have "decodeURIComponent
          (percentEscape ?b1 @ percentEscape ?b2 @ percentEscape ?b3 @ percentEscape ?b4 @ zs) =
        prepend (utf16 (?b1 mod 8 * 0x40000 + ?b2 mod 0x40 * 0x1000 + ?b3 mod 0x40 * 0x40 +
          ?b4 mod 0x40)) (decodeURIComponent zs)"
    by (rule decode_four [OF r payload_range payload_range payload_range n1 n2])
  then show ?thesis by (simp only: u j list.map concat.simps append_Nil2 append_assoc)
qed

lemma decode_utf8:
  assumes "cp < 0x110000" "\<not> (0xD800 \<le> cp \<and> cp < 0xE000)"
  shows "decodeURIComponent (concat (map percentEscape (utf8 cp)) @ zs) =
         prepend (utf16 cp) (decodeURIComponent zs)"
proof -
  consider "cp < 0x80" | "0x80 \<le> cp" "cp < 0x800" | "0x800 \<le> cp" "cp < 0x10000"
    | "0x10000 \<le> cp"
    by linarith
  then show ?thesis
  proof cases
    case 1 then show ?thesis by (rule decode_utf8_1)
  next
    case 2 then show ?thesis by (rule decode_utf8_2)
  next
    case 3 then show ?thesis using assms(2) by (rule decode_utf8_3)
  next
    case 4 then show ?thesis using assms(1) by (rule decode_utf8_4)
  qed
qed


lemma utf16_code_unit: "utf16 (unat (c :: 16 word)) = [c]"
proof -
  have "unat c < 2 ^ 16" using unsigned_less [of c] by simp
  then show ?thesis by (simp add: utf16_def)
qed

lemma utf16_surrogatePair:
  assumes "isLeadSurrogate c" "isTrailSurrogate d"
  shows "utf16 (surrogatePair c d) = [c, d]"
proof -
  from assms have c: "0xD800 \<le> unat c" "unat c \<le> 0xDBFF"
    and d: "0xDC00 \<le> unat d" "unat d \<le> 0xDFFF"
    by (simp_all add: isLeadSurrogate_def isTrailSurrogate_def word_le_nat_alt)
  define x where "x = unat c - 0xD800"
  define y where "y = unat d - 0xDC00"
  from c d have xy: "x < 0x400" "y < 0x400" "unat c = 0xD800 + x" "unat d = 0xDC00 + y"
    by (simp_all add: x_def y_def)
  have n: "\<not> surrogatePair c d < 0x10000"
    by (simp add: surrogatePair_def)
  have m: "surrogatePair c d - 0x10000 = x * 0x400 + y"
    by (simp add: surrogatePair_def x_def y_def)
  have dv: "(x * 0x400 + y) div 0x400 = x" using xy(2) by simp
  have md: "(x * 0x400 + y) mod 0x400 = y" using xy(2) by simp
  have "of_nat (unat c) = c" "of_nat (unat d) = d" by simp_all
  then have w: "of_nat (0xD800 + x) = c" "of_nat (0xDC00 + y) = d"
    by (simp_all only: xy(3,4))
  show ?thesis
    by (simp only: utf16_def n if_False m dv md w)
qed

lemma surrogatePair_range:
  assumes "isLeadSurrogate c" "isTrailSurrogate d"
  shows "0x10000 \<le> surrogatePair c d"
  by (simp add: surrogatePair_def)

lemma not_surrogate_unat:
  "\<not> isLeadSurrogate c \<Longrightarrow> \<not> isTrailSurrogate c \<Longrightarrow>
     \<not> (0xD800 \<le> unat c \<and> unat c < 0xE000)"
  by (auto simp: isLeadSurrogate_def isTrailSurrogate_def word_le_nat_alt)

lemma uriUnreserved_not_percent: "uriUnreserved c \<Longrightarrow> c \<noteq> 0x25"
  by (auto simp: uriUnreserved_def)

lemma decode_encode:
  "encodeURIComponent s = Inr r \<Longrightarrow> decodeURIComponent r = Inr s"
proof (induction s arbitrary: r rule: encodeURIComponent.induct)
  case 1
  then show ?case by simp
next
  case (2 x xs)
  show ?case
  proof (cases "uriUnreserved x")
    case True
    with "2.prems" obtain zs where zs: "encodeURIComponent xs = Inr zs" "r = [x] @ zs"
      by (auto simp: prepend_Inr)
    from "2.IH"(1) [OF True zs(1)] uriUnreserved_not_percent [OF True] zs(2) show ?thesis
      by (simp add: prepend_def)
  next
    case nu: False
    with "2.prems" have nt: "\<not> isTrailSurrogate x" by (auto split: if_splits)
    show ?thesis
    proof (cases "isLeadSurrogate x")
      case True
      with "2.prems" nu nt obtain d ds where xs: "xs = d # ds"
        by (cases xs) auto
      with "2.prems" nu nt True have td: "isTrailSurrogate d"
        by (auto split: if_splits)
      with "2.prems" nu nt True xs obtain zs where
        zs: "encodeURIComponent ds = Inr zs"
            "r = concat (map percentEscape (utf8 (surrogatePair x d))) @ zs"
        by (auto simp: prepend_Inr)
      have "decodeURIComponent r = prepend (utf16 (surrogatePair x d)) (decodeURIComponent zs)"
        unfolding zs(2)
        by (rule decode_utf8_4 [OF surrogatePair_range [OF True td]
              surrogatePair_bound [OF True td]])
      with "2.IH"(2) [OF nu nt True xs td zs(1)] utf16_surrogatePair [OF True td] xs
      show ?thesis by (simp add: prepend_def)
    next
      case False
      with "2.prems" nu nt obtain zs where
        zs: "encodeURIComponent xs = Inr zs"
            "r = concat (map percentEscape (utf8 (unat x))) @ zs"
        by (auto simp: prepend_Inr)
      have "decodeURIComponent r = prepend (utf16 (unat x)) (decodeURIComponent zs)"
        unfolding zs(2)
        by (rule decode_utf8 [OF unat_code_unit not_surrogate_unat [OF False nt]])
      with "2.IH"(3) [OF nu nt False zs(1)] utf16_code_unit [of x]
      show ?thesis by (simp add: prepend_def)
    qed
  qed
qed

lemma request_path_decodes:
  assumes "isWellFormed p"
  shows "case generateImage p sketch params random of
           Inl e \<Rightarrow> False
         | Inr response \<Rightarrow>
             (case imageUrl response of
                None \<Rightarrow> False
              | Some url \<Rightarrow>
                  map_option decodeURIComponent (urlPathSegment url) =
                    Some (Inr (enhancePrompt p (styleName (style params)))))"
proof -
  from assms obtain enc where
    e: "encodeURIComponent (enhancePrompt p (styleName (style params))) = Inr enc"
    and q: "0x3F \<notin> set enc"
    by (rule encode_enhanced)
  from decode_encode [OF e] show ?thesis
    by (simp add: generateImage_Inr [OF e] urlPathSegment_imageUrlOf [OF q])
qed

subsection \<open>Prompt enhancement and the request\<close>

text \<open>
  Claim C4. For each of the eight values of \<open>StylePreset\<close>, which are
  exactly the keys of the suffix table, \<open>enhancePrompt\<close> gives the prompt followed by
  that style's suffix. For a style string that is neither a key of the table nor the name
  of a property inherited from \<open>Object.prototype\<close> it gives the prompt unchanged.
\<close>

theorem enhancePrompt_total:
  "enhancePrompt p (ascii ''photorealistic'') =
     p @ ascii '', highly detailed, photorealistic, 8k resolution, cinematic lighting, photography'' \<and>
   enhancePrompt p (ascii ''digital-art'') =
     p @ ascii '', digital art, trending on artstation, sharp focus, vibrant colors'' \<and>
   enhancePrompt p (ascii ''oil-painting'') =
     p @ ascii '', oil painting texture, classic art style, visible brushstrokes'' \<and>
   enhancePrompt p (ascii ''anime'') =
     p @ ascii '', anime style, studio ghibli, vibrant, cel shaded, clean lines'' \<and>
   enhancePrompt p (ascii ''sketch'') =
     p @ ascii '', pencil sketch, charcoal drawing, rough lines, artistic'' \<and>
   enhancePrompt p (ascii ''watercolor'') =
     p @ ascii '', watercolor painting, soft edges, pastel colors, artistic splatter'' \<and>
   enhancePrompt p (ascii ''cyberpunk'') =
     p @ ascii '', cyberpunk, neon lights, futuristic, high tech, dark atmosphere'' \<and>
   enhancePrompt p (ascii ''fantasy'') =
     p @ ascii '', high fantasy, magical, ethereal, dreamlike, intricate details'' \<and>
   map styleName [Photorealistic, DigitalArt, OilPainting, Anime, Sketch, Watercolor,
                  Cyberpunk, Fantasy] = map fst styleSuffixes \<and>
   (key \<notin> set (map fst styleSuffixes) \<and> key \<notin> set (map fst objectPrototype) \<longrightarrow>
      enhancePrompt p key = p)"
proof -
  have t: "map styleName [Photorealistic, DigitalArt, OilPainting, Anime, Sketch, Watercolor,
                  Cyberpunk, Fantasy] = map fst styleSuffixes"
    by (simp add: styleSuffixes_def)
  have u: "enhancePrompt p key = p"
    if "key \<notin> set (map fst styleSuffixes)" "key \<notin> set (map fst objectPrototype)"
  proof -
    from that have "map_of styleSuffixes key = None" "map_of objectPrototype key = None"
      by (simp_all add: map_of_eq_None_iff)
    then show ?thesis by (simp add: enhancePrompt_def getProperty_def)
  qed
  have k: "enhancePrompt p (ascii ''photorealistic'') =
     p @ ascii '', highly detailed, photorealistic, 8k resolution, cinematic lighting, photography''"
   "enhancePrompt p (ascii ''digital-art'') =
     p @ ascii '', digital art, trending on artstation, sharp focus, vibrant colors''"
   "enhancePrompt p (ascii ''oil-painting'') =
     p @ ascii '', oil painting texture, classic art style, visible brushstrokes''"
   "enhancePrompt p (ascii ''anime'') =
     p @ ascii '', anime style, studio ghibli, vibrant, cel shaded, clean lines''"
   "enhancePrompt p (ascii ''sketch'') =
     p @ ascii '', pencil sketch, charcoal drawing, rough lines, artistic''"
   "enhancePrompt p (ascii ''watercolor'') =
     p @ ascii '', watercolor painting, soft edges, pastel colors, artistic splatter''"
   "enhancePrompt p (ascii ''cyberpunk'') =
     p @ ascii '', cyberpunk, neon lights, futuristic, high tech, dark atmosphere''"
   "enhancePrompt p (ascii ''fantasy'') =
     p @ ascii '', high fantasy, magical, ethereal, dreamlike, intricate details''"
    by (simp_all add: enhancePrompt_def getProperty_def styleSuffixes_def literal)
  from k t u show ?thesis by blast
qed

theorem enhancePrompt_total_witness:
  "ascii ''cubist'' \<notin> set (map fst styleSuffixes) \<and>
   ascii ''cubist'' \<notin> set (map fst objectPrototype) \<and>
   enhancePrompt (ascii ''a red fox'') (ascii ''cubist'') = ascii ''a red fox''"
proof -
  have a: "ascii ''cubist'' \<notin> set (map fst styleSuffixes)"
    by (simp add: styleSuffixes_def literal)
  have b: "ascii ''cubist'' \<notin> set (map fst objectPrototype)"
    by (simp add: objectPrototype_def literal)
  from a b enhancePrompt_total [of "ascii ''a red fox''" "ascii ''cubist''"]
  show ?thesis by simp
qed

text \<open>
  The restriction to names that are not inherited is needed. At the style \<open>__proto__\<close>,
  which is not a key of the table, the lookup finds the prototype object, which is truthy
  and is printed as \<open>[object Object]\<close>: the prompt does not come back unchanged.
\<close>

theorem enhancePrompt_inherited_counterexample:
  "ascii ''__proto__'' \<notin> set (map fst styleSuffixes) \<and>
   enhancePrompt (ascii ''a red fox'') (ascii ''__proto__'') = ascii ''a red fox[object Object]'' \<and>
   enhancePrompt (ascii ''a red fox'') (ascii ''__proto__'') \<noteq> ascii ''a red fox''"
  by (simp add: enhancePrompt_def getProperty_def styleSuffixes_def objectPrototype_def literal)

text \<open>
  Claim C5. For the prompt \<open>a red fox\<close> and the style anime the enhanced prompt is
  \<open>a red fox, anime style, studio ghibli, vibrant, cel shaded, clean lines\<close>. The URL
  \<open>generateImage\<close> returns has a path segment whose percent-decoding is that text, the
  query parameters width = 512, height = 512 and model = flux, and a seed parameter that
  is a whole number from 0 up to 999999, whatever binary64 number in \<open>[0, 1)\<close> the random
  draw is.
\<close>

theorem red_fox_request_url:
  assumes "isBinary64 random" "0 \<le> random" "random < 1" "style params = Anime"
  shows "enhancePrompt (ascii ''a red fox'') (ascii ''anime'') =
           ascii ''a red fox, anime style, studio ghibli, vibrant, cel shaded, clean lines'' \<and>
         (case generateImage (ascii ''a red fox'') sketch params random of
            Inl e \<Rightarrow> False
          | Inr response \<Rightarrow>
              (case imageUrl response of
                 None \<Rightarrow> False
               | Some url \<Rightarrow>
                   map_option decodeURIComponent (urlPathSegment url) =
                     Some (Inr (ascii ''a red fox, anime style, studio ghibli, vibrant, cel shaded, clean lines'')) \<and>
                   map_of (urlQuery url) (ascii ''width'') = Some (ascii ''512'') \<and>
                   map_of (urlQuery url) (ascii ''height'') = Some (ascii ''512'') \<and>
                   map_of (urlQuery url) (ascii ''model'') = Some (ascii ''flux'') \<and>
                   (case map_of (urlQuery url) (ascii ''seed'') of
                      None \<Rightarrow> False
                    | Some text \<Rightarrow>
                        (case parseSeed text of
                           None \<Rightarrow> False
                         | Some n \<Rightarrow> 0 \<le> n \<and> n < 1000000))))"
proof -
  let ?enc = "ascii ''a%20red%20fox%2C%20anime%20style%2C%20studio%20ghibli%2C%20vibrant%2C%20cel%20shaded%2C%20clean%20lines''"
  let ?n = "\<lfloor>round64 (random * 1000000)\<rfloor>"
  have a: "enhancePrompt (ascii ''a red fox'') (ascii ''anime'') =
           ascii ''a red fox, anime style, studio ghibli, vibrant, cel shaded, clean lines''"
    by (rule red_fox_enhanced)
  have e: "encodeURIComponent (enhancePrompt (ascii ''a red fox'') (styleName (style params)))
           = Inr ?enc"
    by (simp only: assms(4) styleName.simps red_fox_enhanced red_fox_encoded)
  then have q: "0x3F \<notin> set ?enc" by (rule encodeURIComponent_no_question)
  from seed_range [OF assms(1,2,3)] have r: "0 \<le> ?n" "?n < 1000000" by simp_all
  have s: "parseSeed (numberToString ?n) = Some ?n"
    by (rule parseSeed_numberToString [OF r(1)])
  have "map_option decodeURIComponent (urlPathSegment (imageUrlOf ?enc ?n)) =
          Some (Inr (ascii ''a red fox, anime style, studio ghibli, vibrant, cel shaded, clean lines''))"
    by (simp only: urlPathSegment_imageUrlOf [OF q] option.map red_fox_decoded)
  moreover have "map_of (urlQuery (imageUrlOf ?enc ?n)) (ascii ''width'') = Some (ascii ''512'')"
    "map_of (urlQuery (imageUrlOf ?enc ?n)) (ascii ''height'') = Some (ascii ''512'')"
    "map_of (urlQuery (imageUrlOf ?enc ?n)) (ascii ''model'') = Some (ascii ''flux'')"
    "map_of (urlQuery (imageUrlOf ?enc ?n)) (ascii ''seed'') = Some (numberToString ?n)"
    by (simp_all only: urlQuery_imageUrlOf [OF q]) (simp_all add: literal)
  ultimately show ?thesis
    using a r s by (simp add: generateImage_Inr [OF e])
qed

theorem red_fox_request_url_witness:
  "isBinary64 (1 / 4) \<and> (0 :: real) \<le> 1 / 4 \<and> (1 / 4 :: real) < 1 \<and>
   style (DEFAULT_PARAMS\<lparr>style := Anime\<rparr>) = Anime \<and>
   generateImage (ascii ''a red fox'') [] (DEFAULT_PARAMS\<lparr>style := Anime\<rparr>) (1 / 4) =
     Inr \<lparr>success = True,
          images = [ascii ''https://image.pollinations.ai/prompt/a%20red%20fox%2C%20anime%20style%2C%20studio%20ghibli%2C%20vibrant%2C%20cel%20shaded%2C%20clean%20lines?width=512&height=512&seed=250000&nologo=true&model=flux''],
          error = None,
          metadata = Some \<lparr>generationTime = 1000, model = ascii ''pollinations-flux'',
                           seed = Some 250000\<rparr>,
          imageUrl = Some (ascii ''https://image.pollinations.ai/prompt/a%20red%20fox%2C%20anime%20style%2C%20studio%20ghibli%2C%20vibrant%2C%20cel%20shaded%2C%20clean%20lines?width=512&height=512&seed=250000&nologo=true&model=flux'')\<rparr> \<and>
   map_option decodeURIComponent (urlPathSegment (ascii ''https://image.pollinations.ai/prompt/a%20red%20fox%2C%20anime%20style%2C%20studio%20ghibli%2C%20vibrant%2C%20cel%20shaded%2C%20clean%20lines?width=512&height=512&seed=250000&nologo=true&model=flux'')) =
     Some (Inr (ascii ''a red fox, anime style, studio ghibli, vibrant, cel shaded, clean lines'')) \<and>
   map_of (urlQuery (ascii ''https://image.pollinations.ai/prompt/a%20red%20fox%2C%20anime%20style%2C%20studio%20ghibli%2C%20vibrant%2C%20cel%20shaded%2C%20clean%20lines?width=512&height=512&seed=250000&nologo=true&model=flux'')) (ascii ''width'') = Some (ascii ''512'') \<and>
   map_of (urlQuery (ascii ''https://image.pollinations.ai/prompt/a%20red%20fox%2C%20anime%20style%2C%20studio%20ghibli%2C%20vibrant%2C%20cel%20shaded%2C%20clean%20lines?width=512&height=512&seed=250000&nologo=true&model=flux'')) (ascii ''height'') = Some (ascii ''512'') \<and>
   map_of (urlQuery (ascii ''https://image.pollinations.ai/prompt/a%20red%20fox%2C%20anime%20style%2C%20studio%20ghibli%2C%20vibrant%2C%20cel%20shaded%2C%20clean%20lines?width=512&height=512&seed=250000&nologo=true&model=flux'')) (ascii ''model'') = Some (ascii ''flux'')"
proof -
  have h: "isBinary64 (1 / 4)" "(0 :: real) \<le> 1 / 4" "(1 / 4 :: real) < 1"
    "style (DEFAULT_PARAMS\<lparr>style := Anime\<rparr>) = Anime"
    by (simp_all add: binary64_quarter)
  have u: "imageUrlOf (ascii ''a%20red%20fox%2C%20anime%20style%2C%20studio%20ghibli%2C%20vibrant%2C%20cel%20shaded%2C%20clean%20lines'') 250000 =
     ascii ''https://image.pollinations.ai/prompt/a%20red%20fox%2C%20anime%20style%2C%20studio%20ghibli%2C%20vibrant%2C%20cel%20shaded%2C%20clean%20lines?width=512&height=512&seed=250000&nologo=true&model=flux''"
    by (simp add: imageUrlOf_def numberToString_512 numberToString_250000 literal)
  have e: "encodeURIComponent (enhancePrompt (ascii ''a red fox'')
             (styleName (style (DEFAULT_PARAMS\<lparr>style := Anime\<rparr>)))) =
           Inr (ascii ''a%20red%20fox%2C%20anime%20style%2C%20studio%20ghibli%2C%20vibrant%2C%20cel%20shaded%2C%20clean%20lines'')"
    by (simp only: h(4) styleName.simps red_fox_enhanced red_fox_encoded)
  have g: "generateImage (ascii ''a red fox'') [] (DEFAULT_PARAMS\<lparr>style := Anime\<rparr>) (1 / 4) =
     Inr \<lparr>success = True,
          images = [ascii ''https://image.pollinations.ai/prompt/a%20red%20fox%2C%20anime%20style%2C%20studio%20ghibli%2C%20vibrant%2C%20cel%20shaded%2C%20clean%20lines?width=512&height=512&seed=250000&nologo=true&model=flux''],
          error = None,
          metadata = Some \<lparr>generationTime = 1000, model = ascii ''pollinations-flux'',
                           seed = Some 250000\<rparr>,
          imageUrl = Some (ascii ''https://image.pollinations.ai/prompt/a%20red%20fox%2C%20anime%20style%2C%20studio%20ghibli%2C%20vibrant%2C%20cel%20shaded%2C%20clean%20lines?width=512&height=512&seed=250000&nologo=true&model=flux'')\<rparr>"
    by (simp add: generateImage_Inr [OF e] u round64_250000)
  from red_fox_request_url [OF h, of "[]"] h
  show ?thesis
    by (simp add: g split: option.splits)
qed

text \<open>
  Claim C9. Two calls with the same prompt, sketch and parameters, whose random draws are
  \<open>r1\<close> and \<open>r2\<close>, either both fail with the same error or both succeed with
  results that agree in everything but the seed: same success flag, error, generation
  time and model, same path segment of the URL, same query keys and same value under
  every key other than seed. The seeds are the floors of the binary64 products of the
  draws and a million, and the URLs are equal exactly when the seeds are. With equal
  seeds the whole results are equal, so the result is a function of prompt, parameters
  and seed; the sketch does not enter. The seeds seldom coincide: of the \<open>2 ^ n\<close>
  equally spaced values \<open>k / 2 ^ n\<close> the second draw can take, fewer than
  \<open>(1 + 2 ^ -33) * 2 ^ n / 10 ^ 6 + 1\<close> repeat the seed of the first run, which for draws
  of 52 or of 53 random bits, each value as likely as the other, is a chance below
  1.000001 in a million.
\<close>

theorem generateImage_two_runs:
  assumes "0 \<le> r1" "r1 < 1" "0 \<le> r2" "r2 < 1"
  shows
   "(case (generateImage p sketch params r1, generateImage p sketch params r2) of
       (Inl e1, Inl e2) \<Rightarrow> e1 = e2
     | (Inr a, Inr b) \<Rightarrow>
         success a = success b \<and> error a = error b \<and>
         map_option generationTime (metadata a) = map_option generationTime (metadata b) \<and>
         map_option model (metadata a) = map_option model (metadata b) \<and>
         map_option seed (metadata a) = Some (Some \<lfloor>round64 (r1 * 1000000)\<rfloor>) \<and>
         map_option seed (metadata b) = Some (Some \<lfloor>round64 (r2 * 1000000)\<rfloor>) \<and>
         (case (imageUrl a, imageUrl b) of
            (Some u, Some v) \<Rightarrow>
              images a = [u] \<and> images b = [v] \<and>
              urlPathSegment u = urlPathSegment v \<and>
              map fst (urlQuery u) = map fst (urlQuery v) \<and>
              (\<forall>key. key \<noteq> ascii ''seed'' \<longrightarrow>
                 map_of (urlQuery u) key = map_of (urlQuery v) key) \<and>
              (u = v \<longleftrightarrow> \<lfloor>round64 (r1 * 1000000)\<rfloor> = \<lfloor>round64 (r2 * 1000000)\<rfloor>)
          | _ \<Rightarrow> False)
     | _ \<Rightarrow> False) \<and>
    (\<lfloor>round64 (r1 * 1000000)\<rfloor> = \<lfloor>round64 (r2 * 1000000)\<rfloor> \<longrightarrow>
       generateImage p sketch params r1 = generateImage p sketch params r2) \<and>
    real (card (repeats n \<lfloor>round64 (r1 * 1000000)\<rfloor>)) <
      (1 + 1 / 2 ^ 33) * (2 ^ n / 1000000) + 1 \<and>
    real (card (repeats 52 \<lfloor>round64 (r1 * 1000000)\<rfloor>)) / 2 ^ 52 < 1000001 / 1000000000000 \<and>
    real (card (repeats 53 \<lfloor>round64 (r1 * 1000000)\<rfloor>)) / 2 ^ 53 < 1000001 / 1000000000000 \<and>
    generateImage p sketch' params r1 = generateImage p sketch params r1"
proof -
  let ?m = "\<lfloor>round64 (r1 * 1000000)\<rfloor>" and ?n = "\<lfloor>round64 (r2 * 1000000)\<rfloor>"
  from assms(1) have "0 \<le> r1 * 1000000" by simp
  from round64_nonneg [OF this] have m0: "0 \<le> ?m" by simp
  from assms(3) have "0 \<le> r2 * 1000000" by simp
  from round64_nonneg [OF this] have n0: "0 \<le> ?n" by simp
  note nonneg = m0 n0
  have same: "?m = ?n \<Longrightarrow> generateImage p sketch params r1 = generateImage p sketch params r2"
    by (simp add: generateImage_def)
  have count: "real (card (repeats n ?m)) < (1 + 1 / 2 ^ 33) * (2 ^ n / 1000000) + 1"
    by (rule repeats_count)
  have c52: "real (card (repeats 52 ?m)) / 2 ^ 52 < 1000001 / 1000000000000"
  proof -
    have "real (card (repeats 52 ?m)) < (1 + 1 / 2 ^ 33) * (2 ^ 52 / 1000000) + 1"
      by (rule repeats_count)
    also have "\<dots> < 1000001 / 1000000000000 * 2 ^ 52" by simp
    finally show ?thesis by (simp only: pos_divide_less_eq zero_less_power zero_less_numeral)
  qed
  have c53: "real (card (repeats 53 ?m)) / 2 ^ 53 < 1000001 / 1000000000000"
  proof -
    have "real (card (repeats 53 ?m)) < (1 + 1 / 2 ^ 33) * (2 ^ 53 / 1000000) + 1"
      by (rule repeats_count)
    also have "\<dots> < 1000001 / 1000000000000 * 2 ^ 53" by simp
    finally show ?thesis by (simp only: pos_divide_less_eq zero_less_power zero_less_numeral)
  qed
  have sk: "generateImage p sketch' params r1 = generateImage p sketch params r1"
    by (simp add: generateImage_def)
  have runs: "(case (generateImage p sketch params r1, generateImage p sketch params r2) of
       (Inl e1, Inl e2) \<Rightarrow> e1 = e2
     | (Inr a, Inr b) \<Rightarrow>
         success a = success b \<and> error a = error b \<and>
         map_option generationTime (metadata a) = map_option generationTime (metadata b) \<and>
         map_option model (metadata a) = map_option model (metadata b) \<and>
         map_option seed (metadata a) = Some (Some \<lfloor>round64 (r1 * 1000000)\<rfloor>) \<and>
         map_option seed (metadata b) = Some (Some \<lfloor>round64 (r2 * 1000000)\<rfloor>) \<and>
         (case (imageUrl a, imageUrl b) of
            (Some u, Some v) \<Rightarrow>
              images a = [u] \<and> images b = [v] \<and>
              urlPathSegment u = urlPathSegment v \<and>
              map fst (urlQuery u) = map fst (urlQuery v) \<and>
              (\<forall>key. key \<noteq> ascii ''seed'' \<longrightarrow>
                 map_of (urlQuery u) key = map_of (urlQuery v) key) \<and>
              (u = v \<longleftrightarrow> \<lfloor>round64 (r1 * 1000000)\<rfloor> = \<lfloor>round64 (r2 * 1000000)\<rfloor>)
          | _ \<Rightarrow> False)
     | _ \<Rightarrow> False)"
  proof (cases "isWellFormed p")
    case False
    then show ?thesis by (simp add: generateImage_Inl)
  next
    case True
    then obtain enc where
      e: "encodeURIComponent (enhancePrompt p (styleName (style params))) = Inr enc"
      and q: "0x3F \<notin> set enc"
      by (rule encode_enhanced)
    have u: "imageUrlOf enc ?m = imageUrlOf enc ?n \<longleftrightarrow> ?m = ?n"
      by (rule iffI, erule imageUrlOf_inj [OF nonneg], simp only:)
    show ?thesis
      by (simp add: generateImage_Inr [OF e] urlPathSegment_imageUrlOf [OF q]
          urlQuery_imageUrlOf [OF q] u)
  qed
  from runs same count c52 c53 sk show ?thesis by blast
qed

theorem generateImage_two_runs_witness:
  "(0 :: real) \<le> 1 / 4 \<and> (1 / 4 :: real) < 1 \<and> (0 :: real) \<le> 3 / 4 \<and> (3 / 4 :: real) < 1 \<and>
   generateImage (ascii ''a red fox'') [] (DEFAULT_PARAMS\<lparr>style := Anime\<rparr>) (1 / 4) =
     Inr \<lparr>success = True, images = [ascii ''https://image.pollinations.ai/prompt/a%20red%20fox%2C%20anime%20style%2C%20studio%20ghibli%2C%20vibrant%2C%20cel%20shaded%2C%20clean%20lines?width=512&height=512&seed=250000&nologo=true&model=flux''], error = None,
          metadata = Some \<lparr>generationTime = 1000, model = ascii ''pollinations-flux'',
                           seed = Some 250000\<rparr>,
          imageUrl = Some (ascii ''https://image.pollinations.ai/prompt/a%20red%20fox%2C%20anime%20style%2C%20studio%20ghibli%2C%20vibrant%2C%20cel%20shaded%2C%20clean%20lines?width=512&height=512&seed=250000&nologo=true&model=flux'')\<rparr> \<and>
   generateImage (ascii ''a red fox'') [] (DEFAULT_PARAMS\<lparr>style := Anime\<rparr>) (3 / 4) =
     Inr \<lparr>success = True, images = [ascii ''https://image.pollinations.ai/prompt/a%20red%20fox%2C%20anime%20style%2C%20studio%20ghibli%2C%20vibrant%2C%20cel%20shaded%2C%20clean%20lines?width=512&height=512&seed=750000&nologo=true&model=flux''], error = None,
          metadata = Some \<lparr>generationTime = 1000, model = ascii ''pollinations-flux'',
                           seed = Some 750000\<rparr>,
          imageUrl = Some (ascii ''https://image.pollinations.ai/prompt/a%20red%20fox%2C%20anime%20style%2C%20studio%20ghibli%2C%20vibrant%2C%20cel%20shaded%2C%20clean%20lines?width=512&height=512&seed=750000&nologo=true&model=flux'')\<rparr> \<and>
   urlPathSegment (ascii ''https://image.pollinations.ai/prompt/a%20red%20fox%2C%20anime%20style%2C%20studio%20ghibli%2C%20vibrant%2C%20cel%20shaded%2C%20clean%20lines?width=512&height=512&seed=250000&nologo=true&model=flux'') = urlPathSegment (ascii ''https://image.pollinations.ai/prompt/a%20red%20fox%2C%20anime%20style%2C%20studio%20ghibli%2C%20vibrant%2C%20cel%20shaded%2C%20clean%20lines?width=512&height=512&seed=750000&nologo=true&model=flux'') \<and>
   map fst (urlQuery (ascii ''https://image.pollinations.ai/prompt/a%20red%20fox%2C%20anime%20style%2C%20studio%20ghibli%2C%20vibrant%2C%20cel%20shaded%2C%20clean%20lines?width=512&height=512&seed=250000&nologo=true&model=flux'')) = map fst (urlQuery (ascii ''https://image.pollinations.ai/prompt/a%20red%20fox%2C%20anime%20style%2C%20studio%20ghibli%2C%20vibrant%2C%20cel%20shaded%2C%20clean%20lines?width=512&height=512&seed=750000&nologo=true&model=flux'')) \<and>
   ascii ''https://image.pollinations.ai/prompt/a%20red%20fox%2C%20anime%20style%2C%20studio%20ghibli%2C%20vibrant%2C%20cel%20shaded%2C%20clean%20lines?width=512&height=512&seed=250000&nologo=true&model=flux'' \<noteq> ascii ''https://image.pollinations.ai/prompt/a%20red%20fox%2C%20anime%20style%2C%20studio%20ghibli%2C%20vibrant%2C%20cel%20shaded%2C%20clean%20lines?width=512&height=512&seed=750000&nologo=true&model=flux''"
proof -
  have h: "(0 :: real) \<le> 1 / 4" "(1 / 4 :: real) < 1" "(0 :: real) \<le> 3 / 4" "(3 / 4 :: real) < 1"
    by simp_all
  have e: "encodeURIComponent (enhancePrompt (ascii ''a red fox'')
             (styleName (style (DEFAULT_PARAMS\<lparr>style := Anime\<rparr>)))) =
           Inr (ascii ''a%20red%20fox%2C%20anime%20style%2C%20studio%20ghibli%2C%20vibrant%2C%20cel%20shaded%2C%20clean%20lines'')"
    by (simp add: red_fox_enhanced red_fox_encoded)
  have u1: "imageUrlOf (ascii ''a%20red%20fox%2C%20anime%20style%2C%20studio%20ghibli%2C%20vibrant%2C%20cel%20shaded%2C%20clean%20lines'') 250000 = ascii ''https://image.pollinations.ai/prompt/a%20red%20fox%2C%20anime%20style%2C%20studio%20ghibli%2C%20vibrant%2C%20cel%20shaded%2C%20clean%20lines?width=512&height=512&seed=250000&nologo=true&model=flux''"
    by (simp add: imageUrlOf_def numberToString_512 numberToString_250000 literal)
  have u2: "imageUrlOf (ascii ''a%20red%20fox%2C%20anime%20style%2C%20studio%20ghibli%2C%20vibrant%2C%20cel%20shaded%2C%20clean%20lines'') 750000 = ascii ''https://image.pollinations.ai/prompt/a%20red%20fox%2C%20anime%20style%2C%20studio%20ghibli%2C%20vibrant%2C%20cel%20shaded%2C%20clean%20lines?width=512&height=512&seed=750000&nologo=true&model=flux''"
    by (simp add: imageUrlOf_def numberToString_512 numberToString_750000 literal)
  have g1: "generateImage (ascii ''a red fox'') [] (DEFAULT_PARAMS\<lparr>style := Anime\<rparr>) (1 / 4) =
     Inr \<lparr>success = True, images = [ascii ''https://image.pollinations.ai/prompt/a%20red%20fox%2C%20anime%20style%2C%20studio%20ghibli%2C%20vibrant%2C%20cel%20shaded%2C%20clean%20lines?width=512&height=512&seed=250000&nologo=true&model=flux''], error = None,
          metadata = Some \<lparr>generationTime = 1000, model = ascii ''pollinations-flux'',
                           seed = Some 250000\<rparr>,
          imageUrl = Some (ascii ''https://image.pollinations.ai/prompt/a%20red%20fox%2C%20anime%20style%2C%20studio%20ghibli%2C%20vibrant%2C%20cel%20shaded%2C%20clean%20lines?width=512&height=512&seed=250000&nologo=true&model=flux'')\<rparr>"
    by (simp add: generateImage_Inr [OF e] u1 round64_250000)
  have g2: "generateImage (ascii ''a red fox'') [] (DEFAULT_PARAMS\<lparr>style := Anime\<rparr>) (3 / 4) =
     Inr \<lparr>success = True, images = [ascii ''https://image.pollinations.ai/prompt/a%20red%20fox%2C%20anime%20style%2C%20studio%20ghibli%2C%20vibrant%2C%20cel%20shaded%2C%20clean%20lines?width=512&height=512&seed=750000&nologo=true&model=flux''], error = None,
          metadata = Some \<lparr>generationTime = 1000, model = ascii ''pollinations-flux'',
                           seed = Some 750000\<rparr>,
          imageUrl = Some (ascii ''https://image.pollinations.ai/prompt/a%20red%20fox%2C%20anime%20style%2C%20studio%20ghibli%2C%20vibrant%2C%20cel%20shaded%2C%20clean%20lines?width=512&height=512&seed=750000&nologo=true&model=flux'')\<rparr>"
    by (simp add: generateImage_Inr [OF e] u2 round64_750000)
  from generateImage_two_runs [OF h, where p = "ascii ''a red fox''" and sketch = "[]"
      and params = "DEFAULT_PARAMS\<lparr>style := Anime\<rparr>"] h
  show ?thesis
    by (simp add: g1 g2)
qed

text \<open>
  Claim C10. For every prompt without an unpaired surrogate, the empty prompt
  included, and every sketch, \<open>generateImage\<close> returns a response with success true,
  no error, the one image equal to \<open>imageUrl\<close>, generation time 1000 and model
  \<open>pollinations-flux\<close>, while the model parameter in the URL is \<open>flux\<close>. For a prompt
  with an unpaired surrogate \<open>encodeURIComponent\<close> throws and no response is returned.
\<close>

theorem generateImage_result:
  "(isWellFormed p \<longrightarrow>
      (case generateImage p sketch params random of
         Inl e \<Rightarrow> False
       | Inr response \<Rightarrow>
           success response \<and> error response = None \<and>
           map Some (images response) = [imageUrl response] \<and>
           metadata response =
             Some \<lparr>generationTime = 1000, model = ascii ''pollinations-flux'',
                   seed = Some \<lfloor>round64 (random * 1000000)\<rfloor>\<rparr> \<and>
           (case imageUrl response of
              None \<Rightarrow> False
            | Some url \<Rightarrow> map_of (urlQuery url) (ascii ''model'') = Some (ascii ''flux'')))) \<and>
   (\<not> isWellFormed p \<longrightarrow> generateImage p sketch params random = Inl URIError) \<and>
   ascii ''flux'' \<noteq> ascii ''pollinations-flux''"
proof -
  have ok: "case generateImage p sketch params random of
         Inl e \<Rightarrow> False
       | Inr response \<Rightarrow>
           success response \<and> error response = None \<and>
           map Some (images response) = [imageUrl response] \<and>
           metadata response =
             Some \<lparr>generationTime = 1000, model = ascii ''pollinations-flux'',
                   seed = Some \<lfloor>round64 (random * 1000000)\<rfloor>\<rparr> \<and>
           (case imageUrl response of
              None \<Rightarrow> False
            | Some url \<Rightarrow> map_of (urlQuery url) (ascii ''model'') = Some (ascii ''flux''))"
    if "isWellFormed p"
  proof -
    from that obtain enc where
      e: "encodeURIComponent (enhancePrompt p (styleName (style params))) = Inr enc"
      and q: "0x3F \<notin> set enc"
      by (rule encode_enhanced)
    have "map_of (urlQuery (imageUrlOf enc \<lfloor>round64 (random * 1000000)\<rfloor>)) (ascii ''model'')
        = Some (ascii ''flux'')"
      by (simp add: urlQuery_imageUrlOf [OF q] literal)
    then show ?thesis by (simp add: generateImage_Inr [OF e])
  qed
  have names: "ascii ''flux'' \<noteq> ascii ''pollinations-flux''" by (simp add: literal)
  from ok generateImage_Inl names show ?thesis by blast
qed

theorem generateImage_result_witness:
  "isWellFormed [] \<and>
   generateImage [] (ascii ''data:image/png;base64,AAAA'') DEFAULT_PARAMS (1 / 2) =
     Inr \<lparr>success = True,
          images = [ascii ''https://image.pollinations.ai/prompt/%2C%20highly%20detailed%2C%20photorealistic%2C%208k%20resolution%2C%20cinematic%20lighting%2C%20photography?width=512&height=512&seed=500000&nologo=true&model=flux''],
          error = None,
          metadata = Some \<lparr>generationTime = 1000, model = ascii ''pollinations-flux'',
                           seed = Some 500000\<rparr>,
          imageUrl = Some (ascii ''https://image.pollinations.ai/prompt/%2C%20highly%20detailed%2C%20photorealistic%2C%208k%20resolution%2C%20cinematic%20lighting%2C%20photography?width=512&height=512&seed=500000&nologo=true&model=flux'')\<rparr> \<and>
   \<not> isWellFormed [0x61, 0xDC00] \<and>
   generateImage [0x61, 0xDC00] [] DEFAULT_PARAMS (1 / 2) = Inl URIError"
proof -
  have w: "isWellFormed []" by simp
  have i: "\<not> isWellFormed [0x61, 0xDC00]"
    by (simp add: isLeadSurrogate_def isTrailSurrogate_def)
  have e: "encodeURIComponent (enhancePrompt [] (styleName (style DEFAULT_PARAMS))) =
      Inr (ascii ''%2C%20highly%20detailed%2C%20photorealistic%2C%208k%20resolution%2C%20cinematic%20lighting%2C%20photography'')"
    by (simp add: DEFAULT_PARAMS_def enhancePrompt_def getProperty_def styleSuffixes_def
        literal encode_eval)
  have u: "imageUrlOf (ascii ''%2C%20highly%20detailed%2C%20photorealistic%2C%208k%20resolution%2C%20cinematic%20lighting%2C%20photography'') 500000 =
      ascii ''https://image.pollinations.ai/prompt/%2C%20highly%20detailed%2C%20photorealistic%2C%208k%20resolution%2C%20cinematic%20lighting%2C%20photography?width=512&height=512&seed=500000&nologo=true&model=flux''"
    by (simp add: imageUrlOf_def numberToString_512 numberToString_500000 literal)
  have g: "generateImage [] (ascii ''data:image/png;base64,AAAA'') DEFAULT_PARAMS (1 / 2) =
     Inr \<lparr>success = True,
          images = [ascii ''https://image.pollinations.ai/prompt/%2C%20highly%20detailed%2C%20photorealistic%2C%208k%20resolution%2C%20cinematic%20lighting%2C%20photography?width=512&height=512&seed=500000&nologo=true&model=flux''],
          error = None,
          metadata = Some \<lparr>generationTime = 1000, model = ascii ''pollinations-flux'',
                           seed = Some 500000\<rparr>,
          imageUrl = Some (ascii ''https://image.pollinations.ai/prompt/%2C%20highly%20detailed%2C%20photorealistic%2C%208k%20resolution%2C%20cinematic%20lighting%2C%20photography?width=512&height=512&seed=500000&nologo=true&model=flux'')\<rparr>"
    by (simp add: generateImage_Inr [OF e] u round64_500000)
  from w i g
    generateImage_result [where p = "[]" and sketch = "ascii ''data:image/png;base64,AAAA''"
      and params = DEFAULT_PARAMS and random = "1 / 2"]
    generateImage_result [where p = "[0x61, 0xDC00]" and sketch = "[]"
      and params = DEFAULT_PARAMS and random = "1 / 2"]
  show ?thesis by simp
qed

text \<open>
  The restriction to prompts without an unpaired surrogate is needed: for the prompt made
  of a single lead surrogate no response is returned.
\<close>

theorem generateImage_lone_surrogate_counterexample:
  "generateImage [0xD800] [] DEFAULT_PARAMS 0 = Inl URIError"
  by (simp add: generateImage_def DEFAULT_PARAMS_def enhancePrompt_def getProperty_def
      styleSuffixes_def literal encode_eval)

end
